theory Spec2Isabelle
  imports Complex_Main "HOL-Library.Word"
begin

unbundle bit_operations_syntax

section \<open>The random number source\<close>

text \<open>
  The program draws from Python's process-wide generator through \<open>random.randint(a, b)\<close>,
  which returns an integer \<open>N\<close> with \<open>a \<le> N \<le> b\<close>. The generator is made an explicit
  state: an arbitrary sequence of raw naturals and the number of draws made so far. A
  draw reduces the next raw natural into the requested range, so every sequence is an
  outcome of the generator and every outcome comes from some sequence. The program only
  calls \<open>randint\<close> with constants \<open>a \<le> b\<close>.
\<close>

record rng =
  draws :: "nat \<Rightarrow> nat"
  used :: nat

definition randint :: "int \<Rightarrow> int \<Rightarrow> rng \<Rightarrow> int \<times> rng" where
  "randint a b g =
     (a + int (draws g (used g) mod nat (b - a + 1)), g\<lparr>used := Suc (used g)\<rparr>)"

section \<open>Chromosome\<close>

subsection \<open>Gene layout\<close>

definition BRANCH_ANGLE_GENE_BITS :: int where "BRANCH_ANGLE_GENE_BITS = 0x0000003F"
definition BRANCH_ANGLE_SHIFT_NUMBER :: nat where "BRANCH_ANGLE_SHIFT_NUMBER = 0"
definition LENGTH_GENE_BITS :: int where "LENGTH_GENE_BITS = 0x000007C0"
definition LENGTH_SHIFT_NUMBER :: nat where "LENGTH_SHIFT_NUMBER = 6"
definition SYMMETRY_GENE_BITS :: int where "SYMMETRY_GENE_BITS = 0x00003000"
definition SYMMETRY_SHIFT_NUMBER :: nat where "SYMMETRY_SHIFT_NUMBER = 12"
definition SYMMETRY_STRAIGHT_VALUE :: int where "SYMMETRY_STRAIGHT_VALUE = 0x0"
definition SYMMETRY_SAME_HANDED_VALUE :: int where "SYMMETRY_SAME_HANDED_VALUE = 0x1"
definition SYMMETRY_OPPOSITE_HANDED_VALUE :: int where "SYMMETRY_OPPOSITE_HANDED_VALUE = 0x2"
definition SYMMETRY_BILATERAL_VALUE :: int where "SYMMETRY_BILATERAL_VALUE = 0x3"
definition BRANCH_COUNT_GENE_BITS :: int where "BRANCH_COUNT_GENE_BITS = 0x00030000"
definition BRANCH_COUNT_SHIFT_NUMBER :: nat where "BRANCH_COUNT_SHIFT_NUMBER = 16"
definition SEGMENT_TERMINATION_GENE_BITS :: int where "SEGMENT_TERMINATION_GENE_BITS = 0x00030000"
definition SEGMENT_TERMINATED :: int where "SEGMENT_TERMINATED = 0x00000000"
definition SEGMENT_TERMINATION_PREVENT :: int where "SEGMENT_TERMINATION_PREVENT = 0x00010000"
definition SHAPE_GENE_BITS :: int where "SHAPE_GENE_BITS = 0x000C0000"
definition SHAPE_SHIFT_NUMBER :: nat where "SHAPE_SHIFT_NUMBER = 18"
definition SHAPE_LINE_VALUE :: int where "SHAPE_LINE_VALUE = 0"
definition SHAPE_DOT_VALUE :: int where "SHAPE_DOT_VALUE = 1"
definition SHAPE_CIRCLE_VALUE :: int where "SHAPE_CIRCLE_VALUE = 2"
definition SHAPE_FILLED_CIRCLE_VALUE :: int where "SHAPE_FILLED_CIRCLE_VALUE = 3"
definition LINE_WIDTH_GENE_BITS :: int where "LINE_WIDTH_GENE_BITS = 0x00300000"
definition LINE_WIDTH_SHIFT_NUMBER :: nat where "LINE_WIDTH_SHIFT_NUMBER = 20"
definition LINE_COLOR_GENE_BITS :: int where "LINE_COLOR_GENE_BITS = 0x07000000"
definition LINE_COLOR_SHIFT_NUMBER :: nat where "LINE_COLOR_SHIFT_NUMBER = 24"
definition FILL_COLOR_GENE_BITS :: int where "FILL_COLOR_GENE_BITS = 0x70000000"
definition FILL_COLOR_SHIFT_NUMBER :: nat where "FILL_COLOR_SHIFT_NUMBER = 28"

definition SEGMENT_COLORS :: "string list" where
  "SEGMENT_COLORS =
     [''brown'', ''red'', ''orange'', ''yellow'', ''green'', ''blue'', ''purple'', ''white'']"

definition MAX_COLORS :: int where "MAX_COLORS = 8"

subsection \<open>The decoded attributes\<close>

text \<open>
  The attributes a Chromosome object carries after construction. Python integers are
  unbounded, so the raw value and the decoded numbers are \<open>int\<close>; \<open>&\<close>, \<open>|\<close>, \<open>^\<close>,
  \<open>>>\<close> and \<open><<\<close> on Python integers are \<open>AND\<close>, \<open>OR\<close>, \<open>XOR\<close>, \<open>drop_bit\<close> and
  \<open>push_bit\<close> on \<open>int\<close>. The attribute \<open>_index\<close> is \<open>index\<close> and \<open>length\<close> is
  \<open>length_seg\<close>.
\<close>

record chromosome =
  index :: nat
  chromosomeValue :: int
  branchAngle :: int
  length_seg :: int
  symmetryBits :: int
  branchCount :: int
  terminated :: bool
  lineWidth :: int
  lineColor :: string
  fillColor :: string
  shape :: int

text \<open>
  \<open>_interpretChromosomeValue\<close>, as a function of the two attributes the constructor has
  stored before it runs. In the line-width line Python's \<open>+\<close> binds tighter than \<open>>>\<close>:
  \<open>1 + (v & m) >> n\<close> is \<open>(1 + (v & m)) >> n\<close>.
\<close>

definition interpretChromosomeValue :: "nat \<Rightarrow> int \<Rightarrow> chromosome" where
  "interpretChromosomeValue i v =
     (let lineColorOffset = drop_bit LINE_COLOR_SHIFT_NUMBER (v AND LINE_COLOR_GENE_BITS);
          lineColorOffset = lineColorOffset mod MAX_COLORS;
          fillColorOffset = drop_bit FILL_COLOR_SHIFT_NUMBER (v AND FILL_COLOR_GENE_BITS);
          fillColorOffset = fillColorOffset mod MAX_COLORS
      in \<lparr> index = i,
           chromosomeValue = v,
           branchAngle = drop_bit BRANCH_ANGLE_SHIFT_NUMBER (v AND BRANCH_ANGLE_GENE_BITS),
           length_seg = drop_bit LENGTH_SHIFT_NUMBER (v AND LENGTH_GENE_BITS),
           symmetryBits = drop_bit SYMMETRY_SHIFT_NUMBER (v AND SYMMETRY_GENE_BITS),
           branchCount = drop_bit BRANCH_COUNT_SHIFT_NUMBER (v AND BRANCH_COUNT_GENE_BITS),
           terminated = (v AND SEGMENT_TERMINATION_GENE_BITS = SEGMENT_TERMINATED),
           lineWidth = drop_bit LINE_WIDTH_SHIFT_NUMBER (1 + (v AND LINE_WIDTH_GENE_BITS)),
           lineColor = SEGMENT_COLORS ! nat lineColorOffset,
           fillColor = SEGMENT_COLORS ! nat fillColorOffset,
           shape = drop_bit SHAPE_SHIFT_NUMBER (v AND SHAPE_GENE_BITS) \<rparr>)"

text \<open>
  The constructor \<open>Chromosome(index, chromosomeValue = None)\<close>: without a value it draws
  one and sets the bit that prevents termination.
\<close>

definition Chromosome :: "nat \<Rightarrow> int option \<Rightarrow> rng \<Rightarrow> chromosome \<times> rng" where
  "Chromosome i givenValue g =
     (case givenValue of
        None \<Rightarrow>
          (let (r, g') = randint 0 0xFFFFFFFF g
           in (interpretChromosomeValue i (r OR SEGMENT_TERMINATION_PREVENT), g'))
      | Some v \<Rightarrow> (interpretChromosomeValue i v, g))"

text \<open>
  The line width as the documentation of the gene describes it (``how much to widen line
  beyond one wide''): the two-bit field at bits 20 and 21, plus one.
\<close>

definition documentedLineWidth :: "int \<Rightarrow> int" where
  "documentedLineWidth v = 1 + take_bit 2 (drop_bit 20 v)"

section \<open>The drawing cursor\<close>

text \<open>
  The pen is a turtle of Python's standard library, an external collaborator of the
  program. Its state is the position, the heading, whether the pen is down, the stroke
  and fill colours, the stroke width, and the marks it has made so far, in order. The
  coordinates are exact reals: the rounding of the library's floating point arithmetic
  is left out. What the library does with a heading is a parameter of the model: the
  unit vector a heading points along, and the heading reached by a counterclockwise turn
  of a number of degrees. Setting a heading that the cursor has reported gives that
  heading back.
\<close>

record 'h compass =
  unitVector :: "'h \<Rightarrow> real \<times> real"
  rotated :: "'h \<Rightarrow> int \<Rightarrow> 'h"

datatype drawing =
    Stroke real real real real
  | DotMark real real int string
  | CircleTrace real real int
  | BeginFill
  | EndFill

record 'h turtle =
  t_x :: real
  t_y :: real
  t_heading :: 'h
  t_down :: bool
  t_pencolor :: string
  t_fillcolor :: string
  t_width :: int
  t_drawn :: "drawing list"

definition penup :: "'h turtle \<Rightarrow> 'h turtle" where
  "penup pen = pen\<lparr>t_down := False\<rparr>"

definition up :: "'h turtle \<Rightarrow> 'h turtle" where
  "up pen = penup pen"

definition pendown :: "'h turtle \<Rightarrow> 'h turtle" where
  "pendown pen = pen\<lparr>t_down := True\<rparr>"

text \<open>Moving to a point draws the line to it when the pen is down.\<close>

definition setposition :: "real \<Rightarrow> real \<Rightarrow> 'h turtle \<Rightarrow> 'h turtle" where
  "setposition x y pen =
     pen\<lparr>t_x := x, t_y := y,
         t_drawn := (if t_down pen then t_drawn pen @ [Stroke (t_x pen) (t_y pen) x y]
                     else t_drawn pen)\<rparr>"

definition setheading :: "'h \<Rightarrow> 'h turtle \<Rightarrow> 'h turtle" where
  "setheading h pen = pen\<lparr>t_heading := h\<rparr>"

definition forward :: "'h compass \<Rightarrow> int \<Rightarrow> 'h turtle \<Rightarrow> 'h turtle" where
  "forward geo distance pen =
     (let (ux, uy) = unitVector geo (t_heading pen);
          x = t_x pen + real_of_int distance * ux;
          y = t_y pen + real_of_int distance * uy
      in setposition x y pen)"

definition left :: "'h compass \<Rightarrow> int \<Rightarrow> 'h turtle \<Rightarrow> 'h turtle" where
  "left geo angle pen = pen\<lparr>t_heading := rotated geo (t_heading pen) angle\<rparr>"

definition right :: "'h compass \<Rightarrow> int \<Rightarrow> 'h turtle \<Rightarrow> 'h turtle" where
  "right geo angle pen = pen\<lparr>t_heading := rotated geo (t_heading pen) (- angle)\<rparr>"

definition pencolor :: "string \<Rightarrow> 'h turtle \<Rightarrow> 'h turtle" where
  "pencolor c pen = pen\<lparr>t_pencolor := c\<rparr>"

definition fillcolor :: "string \<Rightarrow> 'h turtle \<Rightarrow> 'h turtle" where
  "fillcolor c pen = pen\<lparr>t_fillcolor := c\<rparr>"

definition width :: "int \<Rightarrow> 'h turtle \<Rightarrow> 'h turtle" where
  "width w pen = pen\<lparr>t_width := w\<rparr>"

text \<open>A dot is drawn whether the pen is down or not.\<close>

definition dot :: "int \<Rightarrow> string \<Rightarrow> 'h turtle \<Rightarrow> 'h turtle" where
  "dot diameter color pen =
     pen\<lparr>t_drawn := t_drawn pen @ [DotMark (t_x pen) (t_y pen) diameter color]\<rparr>"

text \<open>A full circle ends where it began, facing as it began.\<close>

definition circle :: "int \<Rightarrow> 'h turtle \<Rightarrow> 'h turtle" where
  "circle radius pen =
     pen\<lparr>t_drawn := (if t_down pen then t_drawn pen @ [CircleTrace (t_x pen) (t_y pen) radius]
                     else t_drawn pen)\<rparr>"

definition begin_fill :: "'h turtle \<Rightarrow> 'h turtle" where
  "begin_fill pen = pen\<lparr>t_drawn := t_drawn pen @ [BeginFill]\<rparr>"

definition end_fill :: "'h turtle \<Rightarrow> 'h turtle" where
  "end_fill pen = pen\<lparr>t_drawn := t_drawn pen @ [EndFill]\<rparr>"

text \<open>
  The ideal turtle in its standard mode, with whole degrees for headings: heading 0 points
  along the x axis, heading 90 straight up, and a left turn adds to the heading.
\<close>

definition degrees :: "int compass" where
  "degrees =
     \<lparr> unitVector = (\<lambda>h. (cos (real_of_int h * pi / 180), sin (real_of_int h * pi / 180))),
       rotated = (\<lambda>h a. (h + a) mod 360) \<rparr>"

section \<open>PenPosition\<close>

text \<open>
  A saved pen position. Every position of one creature refers to the same pen, the one
  of the panel, so the reference is not stored: the pen is passed to the operations and
  returned by those that move it.
\<close>

record 'h penPosition =
  xPosition :: real
  yPosition :: real
  heading :: 'h
  chiralityRight :: bool

text \<open>The constructor \<open>PenPosition(pen, chiralityRight)\<close>, which saves the position.\<close>

definition PenPosition :: "'h turtle \<Rightarrow> bool \<Rightarrow> 'h penPosition" where
  "PenPosition pen chirality =
     \<lparr> xPosition = t_x pen, yPosition = t_y pen, heading = t_heading pen,
       chiralityRight = chirality \<rparr>"

definition restore :: "'h penPosition \<Rightarrow> 'h turtle \<Rightarrow> 'h turtle" where
  "restore p pen =
     (let pen = penup pen;
          pen = setposition (xPosition p) (yPosition p) pen
      in setheading (heading p) pen)"

definition flipChirality :: "'h penPosition \<Rightarrow> 'h penPosition" where
  "flipChirality p = p\<lparr>chiralityRight := \<not> chiralityRight p\<rparr>"

section \<open>Growing, testing and drawing a segment\<close>

text \<open>The loop of the straight symmetry: \<open>for branchIndex in range(n)\<close>.\<close>

fun straightBranches ::
  "'h compass \<Rightarrow> nat \<Rightarrow> int \<Rightarrow> bool \<Rightarrow> 'h turtle \<Rightarrow> 'h penPosition list \<times> 'h turtle" where
  "straightBranches geo 0 len chirality pen = ([], pen)"
| "straightBranches geo (Suc n) len chirality pen =
     (let p = PenPosition pen chirality;
          pen = forward geo len pen;
          (ps, pen) = straightBranches geo n len chirality pen
      in (p # ps, pen))"

text \<open>The loop of one handed pass: turn, then save the position.\<close>

fun angledBranches ::
  "'h compass \<Rightarrow> nat \<Rightarrow> int \<Rightarrow> bool \<Rightarrow> 'h turtle \<Rightarrow> 'h penPosition list \<times> 'h turtle" where
  "angledBranches geo 0 angle chirality pen = ([], pen)"
| "angledBranches geo (Suc n) angle chirality pen =
     (let pen = (if chirality then right geo angle pen else left geo angle pen);
          p = PenPosition pen chirality;
          (ps, pen) = angledBranches geo n angle chirality pen
      in (p # ps, pen))"

text \<open>
  \<open>childSegmentPositions\<close>. A range over a negative count is empty, as over \<open>nat\<close> of it.
  A Python integer is true when it is not zero.
\<close>

definition childSegmentPositions ::
  "'h compass \<Rightarrow> chromosome \<Rightarrow> 'h penPosition \<Rightarrow> 'h turtle \<Rightarrow> 'h penPosition list \<times> 'h turtle" where
  "childSegmentPositions geo c priorSegmentEndingPenPosition pen =
     (let startingchiralityRight = chiralityRight priorSegmentEndingPenPosition;
          pen = restore priorSegmentEndingPenPosition pen
      in if \<not> terminated c then
           if symmetryBits c = SYMMETRY_STRAIGHT_VALUE then
             straightBranches geo (nat (branchCount c)) (length_seg c) startingchiralityRight
               (restore priorSegmentEndingPenPosition pen)
           else
             (let (same, pen) =
                    (if symmetryBits c AND SYMMETRY_SAME_HANDED_VALUE \<noteq> 0 then
                       angledBranches geo (nat (branchCount c)) (branchAngle c)
                         startingchiralityRight (restore priorSegmentEndingPenPosition pen)
                     else ([], pen));
                  (opposite, pen) =
                    (if symmetryBits c AND SYMMETRY_OPPOSITE_HANDED_VALUE \<noteq> 0 then
                       angledBranches geo (nat (branchCount c)) (branchAngle c)
                         (\<not> startingchiralityRight) (restore priorSegmentEndingPenPosition pen)
                     else ([], pen))
              in (same @ opposite, pen))
         else ([], pen))"

text \<open>
  The panel a creature must stay inside. Its class is not part of the sources; the
  program reads its four interior bounds and asks it for the starting pen position,
  which is a field here.
\<close>

record 'h creaturePanel =
  interiorLeftX :: real
  interiorBottomY :: real
  interiorRightX :: real
  interiorTopY :: real
  startingPenPosition :: "'h penPosition"

text \<open>
  \<open>segmentOutOfBounds\<close>: the answer and the pen as the test leaves it. Either argument
  may be \<open>None\<close>.
\<close>

definition segmentOutOfBounds ::
  "'h compass \<Rightarrow> chromosome \<Rightarrow> 'h creaturePanel option \<Rightarrow> 'h penPosition option \<Rightarrow>
     'h turtle \<Rightarrow> bool \<times> 'h turtle" where
  "segmentOutOfBounds geo c creaturePanel penPosition pen =
     (case (creaturePanel, penPosition) of
        (Some panel, Some p) \<Rightarrow>
          (let leftX = interiorLeftX panel;
               bottomY = interiorBottomY panel;
               rightX = interiorRightX panel;
               topY = interiorTopY panel;
               pen = restore p pen;
               radius = drop_bit 1 (length_seg c);
               (pen, leftX, bottomY, rightX, topY) =
                 (if shape c = SHAPE_LINE_VALUE then
                    (forward geo (length_seg c) pen, leftX, bottomY, rightX, topY)
                  else
                    (forward geo radius pen,
                     leftX + real_of_int radius, bottomY + real_of_int radius,
                     rightX - real_of_int radius, topY - real_of_int radius));
               penX = t_x pen;
               penY = t_y pen
           in if penX \<le> leftX \<or> penX \<ge> rightX \<or> penY \<le> bottomY \<or> penY \<ge> topY then
                (True, pen)
              else
                (False, if shape c \<noteq> SHAPE_LINE_VALUE then forward geo radius pen else pen))
      | _ \<Rightarrow> (True, pen))"

text \<open>\<open>drawSingleSegment\<close>, which returns nothing: the pen as the drawing leaves it.\<close>

definition drawSingleSegment ::
  "'h compass \<Rightarrow> chromosome \<Rightarrow> 'h creaturePanel option \<Rightarrow> 'h penPosition option \<Rightarrow>
     'h turtle \<Rightarrow> 'h turtle" where
  "drawSingleSegment geo c creaturePanel penPosition pen =
     (case (creaturePanel, penPosition) of
        (Some panel, Some p) \<Rightarrow>
          (let pen = restore p pen;
               pen = pencolor (lineColor c) pen;
               pen = fillcolor (fillColor c) pen;
               pen = width (lineWidth c) pen;
               radius = drop_bit 1 (length_seg c);
               pen =
                 (if shape c = SHAPE_LINE_VALUE then pendown pen
                  else
                    (let pen =
                           (if shape c = SHAPE_DOT_VALUE then
                              (let pen = forward geo radius pen;
                                   pen = pendown pen;
                                   pen = dot (length_seg c) (lineColor c) pen;
                                   pen = up pen
                               in forward geo radius pen)
                            else if shape c = SHAPE_CIRCLE_VALUE then
                              (let pen = right geo 90 pen;
                                   pen = pendown pen;
                                   pen = circle radius pen;
                                   pen = left geo 90 pen
                               in penup pen)
                            else if shape c = SHAPE_FILLED_CIRCLE_VALUE then
                              (let pen = right geo 90 pen;
                                   pen = pendown pen;
                                   pen = begin_fill pen;
                                   pen = circle radius pen;
                                   pen = end_fill pen;
                                   pen = left geo 90 pen
                               in penup pen)
                            else pen)
                     in restore p pen));
               pen = forward geo (length_seg c) pen
           in penup pen)
      | _ \<Rightarrow> pen)"

section \<open>Objects, and the Genotype\<close>

text \<open>
  A genotype holds a list of references to Chromosome objects, and a mutated copy shares
  some of them with its parent. Chromosome objects and the lists of them therefore live
  in a store: an object is named by its address, the addresses below \<open>allocated\<close> are in
  use, and creating an object takes the next one. An address names either a Chromosome
  or a list.
\<close>

type_synonym addr = nat

record store =
  objects :: "addr \<Rightarrow> chromosome"
  sequences :: "addr \<Rightarrow> addr list"
  allocated :: nat

definition new :: "chromosome \<Rightarrow> store \<Rightarrow> addr \<times> store" where
  "new c s = (allocated s, s\<lparr>objects := (objects s)(allocated s := c),
                              allocated := Suc (allocated s)\<rparr>)"

definition newList :: "addr list \<Rightarrow> store \<Rightarrow> addr \<times> store" where
  "newList xs s = (allocated s, s\<lparr>sequences := (sequences s)(allocated s := xs),
                                  allocated := Suc (allocated s)\<rparr>)"

text \<open>The assignment \<open>xs[i] = a\<close> to the list at an address.\<close>

definition setItem :: "addr \<Rightarrow> nat \<Rightarrow> addr \<Rightarrow> store \<Rightarrow> store" where
  "setItem l i a s = s\<lparr>sequences := (sequences s)(l := (sequences s l)[i := a])\<rparr>"

datatype error = IndexError

text \<open>Reading \<open>xs[i]\<close> for a non-negative \<open>i\<close>.\<close>

definition item :: "'a list \<Rightarrow> nat \<Rightarrow> error + 'a" where
  "item xs i = (if i < length xs then Inr (xs ! i) else Inl IndexError)"

definition CHROMOSOME_COUNT :: nat where "CHROMOSOME_COUNT = 4"
definition MUTATION_RATE_MAXIMUM :: int where "MUTATION_RATE_MAXIMUM = 2"

text \<open>A Genotype object: its attribute \<open>chromosomes\<close> refers to a list.\<close>

record genotype =
  chromosomes :: addr

text \<open>\<open>[Chromosome(chromosomeIndex) for chromosomeIndex in range(CHROMOSOME_COUNT)]\<close>\<close>

fun randomChromosomes :: "nat list \<Rightarrow> rng \<Rightarrow> store \<Rightarrow> addr list \<times> rng \<times> store" where
  "randomChromosomes [] g s = ([], g, s)"
| "randomChromosomes (chromosomeIndex # rest) g s =
     (let (c, g) = Chromosome chromosomeIndex None g;
          (a, s) = new c s;
          (as, g, s) = randomChromosomes rest g s
      in (a # as, g, s))"

text \<open>
  The constructor \<open>Genotype(chromosomes = None)\<close>. A list of the right length is kept as
  it is, not copied.
\<close>

definition randomGenotype :: "rng \<Rightarrow> store \<Rightarrow> genotype \<times> rng \<times> store" where
  "randomGenotype g s =
     (let (as, g, s) = randomChromosomes [0..<CHROMOSOME_COUNT] g s;
          (l, s) = newList as s
      in (\<lparr>chromosomes = l\<rparr>, g, s))"

definition Genotype :: "addr option \<Rightarrow> rng \<Rightarrow> store \<Rightarrow> genotype \<times> rng \<times> store" where
  "Genotype given g s =
     (case given of
        None \<Rightarrow> randomGenotype g s
      | Some l \<Rightarrow>
          if length (sequences s l) \<noteq> CHROMOSOME_COUNT then randomGenotype g s
          else (\<lparr>chromosomes = l\<rparr>, g, s))"

text \<open>
  The mutation loop of \<open>mutatedCopy\<close>, \<open>for mutationCount in range(mutationNumber)\<close>, on
  the list of raw values, which no one else refers to. The drawn index is within the
  list of four values.
\<close>

fun mutate :: "nat \<Rightarrow> int list \<Rightarrow> rng \<Rightarrow> int list \<times> rng" where
  "mutate 0 mutatedChromosomeValues g = (mutatedChromosomeValues, g)"
| "mutate (Suc n) mutatedChromosomeValues g =
     (let (chromosomeIndex, g) = randint 0 (int CHROMOSOME_COUNT - 1) g;
          (position, g) = randint 0 31 g;
          mutatedChromosomeValues =
            mutatedChromosomeValues[nat chromosomeIndex :=
              mutatedChromosomeValues ! nat chromosomeIndex XOR push_bit (nat position) 1]
      in mutate n mutatedChromosomeValues g)"

text \<open>
  The replacement loop of \<open>mutatedCopy\<close>, \<open>for chromosomeIndex in range(CHROMOSOME_COUNT)\<close>,
  on the list \<open>newChromosomes\<close> in the store.
\<close>

fun replaceMutated ::
  "nat list \<Rightarrow> addr \<Rightarrow> int list \<Rightarrow> rng \<Rightarrow> store \<Rightarrow> rng \<times> store" where
  "replaceMutated [] newChromosomes mutatedChromosomeValues g s = (g, s)"
| "replaceMutated (chromosomeIndex # rest) newChromosomes mutatedChromosomeValues g s =
     (if chromosomeValue (objects s (sequences s newChromosomes ! chromosomeIndex))
           \<noteq> mutatedChromosomeValues ! chromosomeIndex then
        (let (c, g) = Chromosome chromosomeIndex
                        (Some (mutatedChromosomeValues ! chromosomeIndex)) g;
             (a, s) = new c s;
             s = setItem newChromosomes chromosomeIndex a s
         in replaceMutated rest newChromosomes mutatedChromosomeValues g s)
      else replaceMutated rest newChromosomes mutatedChromosomeValues g s)"

text \<open>
  \<open>mutatedCopy\<close>. The first statement reads \<open>self.chromosomes[0]\<close> to \<open>[3]\<close> and raises
  before anything else happens when there are fewer; both comprehensions read these
  four and build a new list. The result goes through the constructor of Genotype.
\<close>

definition mutatedCopy :: "genotype \<Rightarrow> rng \<Rightarrow> store \<Rightarrow> (error + genotype) \<times> rng \<times> store" where
  "mutatedCopy self g s =
     (if length (sequences s (chromosomes self)) < CHROMOSOME_COUNT then (Inl IndexError, g, s)
      else
        (let mutatedChromosomeValues =
               map (\<lambda>chromosomeIndex.
                      chromosomeValue (objects s (sequences s (chromosomes self) ! chromosomeIndex)))
                 [0..<CHROMOSOME_COUNT];
             (mutationNumber, g) = randint 1 MUTATION_RATE_MAXIMUM g;
             (mutatedChromosomeValues, g) = mutate (nat mutationNumber) mutatedChromosomeValues g;
             (newChromosomes, s) =
               newList (map (\<lambda>chromosomeIndex. sequences s (chromosomes self) ! chromosomeIndex)
                          [0..<CHROMOSOME_COUNT]) s;
             (g, s) =
               replaceMutated [0..<CHROMOSOME_COUNT] newChromosomes mutatedChromosomeValues g s;
             (child, g, s) = Genotype (Some newChromosomes) g s
         in (Inr child, g, s)))"

section \<open>Creature\<close>

definition MAX_CHROMOSOME_SEGMENTS :: nat where "MAX_CHROMOSOME_SEGMENTS = 32"

record creature =
  genotype :: genotype

definition Creature :: "genotype option \<Rightarrow> rng \<Rightarrow> store \<Rightarrow> creature \<times> rng \<times> store" where
  "Creature given g s =
     (case given of
        None \<Rightarrow> (let (gt, g, s) = Genotype None g s in (\<lparr>genotype = gt\<rparr>, g, s))
      | Some gt \<Rightarrow> (\<lparr>genotype = gt\<rparr>, g, s))"

definition mutatedChild :: "creature \<Rightarrow> rng \<Rightarrow> store \<Rightarrow> (error + creature) \<times> rng \<times> store" where
  "mutatedChild self g s =
     (case mutatedCopy (genotype self) g s of
        (Inl e, g, s) \<Rightarrow> (Inl e, g, s)
      | (Inr gt, g, s) \<Rightarrow> (let (child, g, s) = Creature (Some gt) g s in (Inr child, g, s)))"

text \<open>
  Why the first phase of \<open>display\<close> stops before all generations are through: the two
  \<open>return False\<close> of the resource check, the one of the bounds test, and an exception.
\<close>

datatype 'h stop =
    TooManySegments nat
  | NoSegments
  | OutOfBounds nat "'h penPosition"
  | Raised error

text \<open>
  The inner loop of the first phase, \<open>for segmentPenPosition in chromosomePenPositions\<close>,
  for the chromosome number \<open>k\<close>. It fills the positions of the next chromosome, which is
  not the list it runs over.
\<close>

fun scanSegments ::
  "'h compass \<Rightarrow> chromosome list \<Rightarrow> 'h creaturePanel \<Rightarrow> nat \<Rightarrow> 'h penPosition list \<Rightarrow>
     'h penPosition list list \<Rightarrow> 'h turtle \<Rightarrow>
     ('h stop \<times> 'h turtle) + ('h penPosition list list \<times> 'h turtle)" where
  "scanSegments geo chroms panel k [] segmentPenPositions pen =
     Inr (segmentPenPositions, pen)"
| "scanSegments geo chroms panel k (segmentPenPosition # rest) segmentPenPositions pen =
     (case item chroms k of
        Inl e \<Rightarrow> Inl (Raised e, pen)
      | Inr chromosome \<Rightarrow>
          (case segmentOutOfBounds geo chromosome (Some panel) (Some segmentPenPosition) pen of
             (True, pen) \<Rightarrow> Inl (OutOfBounds k segmentPenPosition, pen)
           | (False, pen) \<Rightarrow>
               (let segmentEndPenPosition =
                      PenPosition pen (chiralityRight segmentPenPosition)
                in if k < CHROMOSOME_COUNT - 1 then
                     (case item chroms (k + 1) of
                        Inl e \<Rightarrow> Inl (Raised e, pen)
                      | Inr nextChromosome \<Rightarrow>
                          (let (kids, pen) =
                                 childSegmentPositions geo nextChromosome
                                   segmentEndPenPosition pen
                           in scanSegments geo chroms panel k rest
                                (segmentPenPositions[k + 1 := segmentPenPositions ! (k + 1) @ kids])
                                pen))
                   else scanSegments geo chroms panel k rest segmentPenPositions pen)))"

text \<open>
  The outer loop of the first phase, \<open>for chromosomeNumber in range(CHROMOSOME_COUNT)\<close>,
  over the chromosome numbers still to come. A \<open>break\<close> ends it with the positions found.
\<close>

fun growGenerations ::
  "'h compass \<Rightarrow> chromosome list \<Rightarrow> 'h creaturePanel \<Rightarrow> nat list \<Rightarrow>
     'h penPosition list list \<Rightarrow> 'h turtle \<Rightarrow>
     ('h stop \<times> 'h turtle) + ('h penPosition list list \<times> 'h turtle)" where
  "growGenerations geo chroms panel [] segmentPenPositions pen =
     Inr (segmentPenPositions, pen)"
| "growGenerations geo chroms panel (chromosomeNumber # rest) segmentPenPositions pen =
     (let chromosomePenPositions = segmentPenPositions ! chromosomeNumber
      in if length chromosomePenPositions > MAX_CHROMOSOME_SEGMENTS then
           Inl (TooManySegments chromosomeNumber, pen)
         else if length chromosomePenPositions = 0 then
           (if chromosomeNumber = 0 then Inl (NoSegments, pen)
            else Inr (segmentPenPositions, pen))
         else
           (case scanSegments geo chroms panel chromosomeNumber chromosomePenPositions
                   segmentPenPositions pen of
              Inl stopped \<Rightarrow> Inl stopped
            | Inr (segmentPenPositions, pen) \<Rightarrow>
                growGenerations geo chroms panel rest segmentPenPositions pen))"

text \<open>The two loops of the second phase.\<close>

fun drawSegments ::
  "'h compass \<Rightarrow> chromosome list \<Rightarrow> 'h creaturePanel \<Rightarrow> nat \<Rightarrow> 'h penPosition list \<Rightarrow>
     'h turtle \<Rightarrow> (error \<times> 'h turtle) + 'h turtle" where
  "drawSegments geo chroms panel k [] pen = Inr pen"
| "drawSegments geo chroms panel k (segmentPenPosition # rest) pen =
     (case item chroms k of
        Inl e \<Rightarrow> Inl (e, pen)
      | Inr chromosome \<Rightarrow>
          drawSegments geo chroms panel k rest
            (drawSingleSegment geo chromosome (Some panel) (Some segmentPenPosition) pen))"

fun drawGenerations ::
  "'h compass \<Rightarrow> chromosome list \<Rightarrow> 'h creaturePanel \<Rightarrow> nat list \<Rightarrow>
     'h penPosition list list \<Rightarrow> 'h turtle \<Rightarrow> (error \<times> 'h turtle) + 'h turtle" where
  "drawGenerations geo chroms panel [] segmentPenPositions pen = Inr pen"
| "drawGenerations geo chroms panel (chromosomeNumber # rest) segmentPenPositions pen =
     (case drawSegments geo chroms panel chromosomeNumber
             (segmentPenPositions ! chromosomeNumber) pen of
        Inl raised \<Rightarrow> Inl raised
      | Inr pen \<Rightarrow> drawGenerations geo chroms panel rest segmentPenPositions pen)"

text \<open>
  The first phase of \<open>display\<close>, up to the end of its first loop: the four empty lists,
  the positions of chromosome 0 grown from the starting position of the panel, and the
  loop. \<open>display\<close> changes no Chromosome and no list of them, so it is given the
  attributes of the chromosomes, in the order of the genotype's list.
\<close>

definition validation ::
  "'h compass \<Rightarrow> chromosome list \<Rightarrow> 'h creaturePanel \<Rightarrow> 'h turtle \<Rightarrow>
     ('h stop \<times> 'h turtle) + ('h penPosition list list \<times> 'h turtle)" where
  "validation geo chroms creaturePanel pen =
     (let segmentPenPositions = replicate CHROMOSOME_COUNT [];
          start = startingPenPosition creaturePanel
      in case item chroms 0 of
           Inl e \<Rightarrow> Inl (Raised e, pen)
         | Inr first \<Rightarrow>
             (let (kids, pen) = childSegmentPositions geo first start pen;
                  segmentPenPositions = segmentPenPositions[0 := segmentPenPositions ! 0 @ kids]
              in growGenerations geo chroms creaturePanel [0..<CHROMOSOME_COUNT]
                   segmentPenPositions pen))"

text \<open>The attributes of the chromosomes of a creature, in the order of its genotype's list.\<close>

definition chromosomesOf :: "store \<Rightarrow> creature \<Rightarrow> chromosome list" where
  "chromosomesOf s self = map (objects s) (sequences s (chromosomes (genotype self)))"

text \<open>
  \<open>display\<close>: what it returns or raises, and the pen as it leaves it. The pen given is the
  pen of the panel as it is once the panel has handed out its starting position.
\<close>

definition display ::
  "'h compass \<Rightarrow> store \<Rightarrow> creature \<Rightarrow> 'h creaturePanel \<Rightarrow> 'h turtle \<Rightarrow>
     (error + bool) \<times> 'h turtle" where
  "display geo s self creaturePanel pen =
     (let chroms = chromosomesOf s self
      in case validation geo chroms creaturePanel pen of
           Inl (Raised e, pen) \<Rightarrow> (Inl e, pen)
         | Inl (_, pen) \<Rightarrow> (Inr False, pen)
         | Inr (segmentPenPositions, pen) \<Rightarrow>
             (case drawGenerations geo chroms creaturePanel [0..<CHROMOSOME_COUNT]
                     segmentPenPositions pen of
                Inl (e, pen) \<Rightarrow> (Inl e, pen)
              | Inr pen \<Rightarrow> (Inr True, pen)))"

section \<open>Notions for stating the properties\<close>

text \<open>
  A saved position moved by a distance along its own heading, with heading and chirality
  kept.
\<close>

definition advanced :: "'h compass \<Rightarrow> 'h penPosition \<Rightarrow> int \<Rightarrow> 'h penPosition" where
  "advanced geo p d =
     p\<lparr>xPosition := xPosition p + real_of_int d * fst (unitVector geo (heading p)),
       yPosition := yPosition p + real_of_int d * snd (unitVector geo (heading p))\<rparr>"

text \<open>A pen at the origin pointing up, that position saved, and a panel around it.\<close>

definition examplePen :: "int turtle" where
  "examplePen = \<lparr> t_x = 0, t_y = 0, t_heading = 90, t_down = False, t_pencolor = ''black'',
                   t_fillcolor = ''black'', t_width = 1, t_drawn = [] \<rparr>"

definition exampleStart :: "int penPosition" where
  "exampleStart = \<lparr> xPosition = 0, yPosition = 0, heading = 90, chiralityRight = True \<rparr>"

definition examplePanel :: "int creaturePanel" where
  "examplePanel = \<lparr> interiorLeftX = -100, interiorBottomY = -100, interiorRightX = 100,
                     interiorTopY = 100, startingPenPosition = exampleStart \<rparr>"

text \<open>
  The flips the mutation loop makes when it runs \<open>n\<close> times from a state of the random
  source, as pairs of chromosome index and bit position in the order drawn, and what
  they add up to at one index.
\<close>

fun flipsDrawn :: "nat \<Rightarrow> rng \<Rightarrow> (nat \<times> nat) list" where
  "flipsDrawn 0 g = []"
| "flipsDrawn (Suc n) g =
     (let (chromosomeIndex, g) = randint 0 (int CHROMOSOME_COUNT - 1) g;
          (position, g) = randint 0 31 g
      in (nat chromosomeIndex, nat position) # flipsDrawn n g)"

fun flipMask :: "(nat \<times> nat) list \<Rightarrow> nat \<Rightarrow> int" where
  "flipMask [] i = 0"
| "flipMask ((chromosomeIndex, position) # flips) i =
     (if chromosomeIndex = i then push_bit position 1 else 0) XOR flipMask flips i"

text \<open>The raw values of the chromosomes of a genotype, in order.\<close>

definition rawValues :: "store \<Rightarrow> genotype \<Rightarrow> int list" where
  "rawValues s gt = map (\<lambda>a. chromosomeValue (objects s a)) (sequences s (chromosomes gt))"

text \<open>What the random construction of a chromosome guarantees.\<close>

definition unterminated :: "chromosome \<Rightarrow> bool" where
  "unterminated c \<longleftrightarrow>
     bit (chromosomeValue c) 16 \<and> \<not> terminated c \<and> (branchCount c = 1 \<or> branchCount c = 3)"

text \<open>
  A random source whose raw numbers are all zero, one whose first raw number is one, and
  a store with nothing in it.
\<close>

definition zeroDraws :: rng where
  "zeroDraws = \<lparr> draws = (\<lambda>k. 0), used = 0 \<rparr>"

definition oneThenZeroDraws :: rng where
  "oneThenZeroDraws = \<lparr> draws = (\<lambda>k. if k = 0 then 1 else 0), used = 0 \<rparr>"

definition emptyStore :: store where
  "emptyStore = \<lparr> objects = (\<lambda>a. interpretChromosomeValue 0 0), sequences = (\<lambda>a. []),
                   allocated = 0 \<rparr>"

text \<open>The flips \<open>mutatedCopy\<close> makes from a state of the random source.\<close>

definition mutationFlips :: "rng \<Rightarrow> (nat \<times> nat) list" where
  "mutationFlips g =
     flipsDrawn (nat (fst (randint 1 MUTATION_RATE_MAXIMUM g)))
       (snd (randint 1 MUTATION_RATE_MAXIMUM g))"

text \<open>
  A store with four chromosomes of raw value 0x10000 at addresses 0 to 3 and their list
  at address 4, and the genotype of that list.
\<close>

definition exampleStore :: store where
  "exampleStore = \<lparr> objects = (\<lambda>a. interpretChromosomeValue a 0x10000),
                     sequences = (\<lambda>a. [0, 1, 2, 3]), allocated = 5 \<rparr>"

definition exampleGenotype :: genotype where
  "exampleGenotype = \<lparr> chromosomes = 4 \<rparr>"

text \<open>
  The answer of the bounds test for a chromosome, a panel and a starting position. The
  test begins by restoring the position, so its answer does not depend on where the pen
  was; here the pen is taken at the position itself.
\<close>

definition penAt :: "'h penPosition \<Rightarrow> 'h turtle" where
  "penAt p = \<lparr> t_x = xPosition p, t_y = yPosition p, t_heading = heading p, t_down = False,
               t_pencolor = [], t_fillcolor = [], t_width = 1, t_drawn = [] \<rparr>"

definition outOfBounds :: "'h compass \<Rightarrow> chromosome \<Rightarrow> 'h creaturePanel \<Rightarrow> 'h penPosition \<Rightarrow> bool" where
  "outOfBounds geo c panel p = fst (segmentOutOfBounds geo c (Some panel) (Some p) (penAt p))"

text \<open>
  Example creatures: the creature of the example genotype, read in stores whose
  chromosomes at addresses 0 to 3 all have one raw value. 0x107C0 is one straight branch
  of length 31; 0x33000 is bilateral with three branches, angle 0 and length 0; 0 is
  terminated. The last store has one straight branch of length 10 first and terminated
  chromosomes after it. The small panel reaches 5 units from the origin.
\<close>

definition exampleCreature :: creature where
  "exampleCreature = \<lparr> genotype = exampleGenotype \<rparr>"

definition longStore :: store where
  "longStore = \<lparr> objects = (\<lambda>a. interpretChromosomeValue a 0x107C0),
                  sequences = (\<lambda>a. [0, 1, 2, 3]), allocated = 5 \<rparr>"

definition bushyStore :: store where
  "bushyStore = \<lparr> objects = (\<lambda>a. interpretChromosomeValue a 0x33000),
                   sequences = (\<lambda>a. [0, 1, 2, 3]), allocated = 5 \<rparr>"

definition terminatedStore :: store where
  "terminatedStore = \<lparr> objects = (\<lambda>a. interpretChromosomeValue a 0),
                        sequences = (\<lambda>a. [0, 1, 2, 3]), allocated = 5 \<rparr>"

definition stubStore :: store where
  "stubStore = \<lparr> objects = (\<lambda>a. interpretChromosomeValue a (if a = 0 then 0x10280 else 0)),
                  sequences = (\<lambda>a. [0, 1, 2, 3]), allocated = 5 \<rparr>"

definition smallPanel :: "int creaturePanel" where
  "smallPanel = \<lparr> interiorLeftX = -5, interiorBottomY = -5, interiorRightX = 5,
                   interiorTopY = 5, startingPenPosition = exampleStart \<rparr>"

text \<open>
  A creature that grows upwards past a low ceiling: one straight branch of length 10
  (0x10280), then two straight branches of length 4 (0x20100), then terminated
  chromosomes, in a panel whose top is at 15.
\<close>

definition relayStore :: store where
  "relayStore =
     \<lparr> objects = (\<lambda>a. interpretChromosomeValue a
                          (if a = 0 then 0x10280 else if a = 1 then 0x20100 else 0)),
       sequences = (\<lambda>a. [0, 1, 2, 3]), allocated = 5 \<rparr>"

definition lowPanel :: "int creaturePanel" where
  "lowPanel = \<lparr> interiorLeftX = -100, interiorBottomY = -100, interiorRightX = 100,
                 interiorTopY = 15, startingPenPosition = exampleStart \<rparr>"

section \<open>Bit fields of an integer\<close>

lemma and_shifted_mask:
  "(v::int) AND push_bit n (mask k) = push_bit n (take_bit k (drop_bit n v))"
  by (rule bit_eqI) (auto simp add: bit_simps)

lemma gene_field:
  "drop_bit n ((v::int) AND push_bit n (mask k)) = take_bit k (drop_bit n v)"
  by (simp add: and_shifted_mask drop_bit_push_bit)

lemma gene_masks:
  "(0x0000003F::int) = push_bit 0 (mask 6)"
  "(0x000007C0::int) = push_bit 6 (mask 5)"
  "(0x00003000::int) = push_bit 12 (mask 2)"
  "(0x00030000::int) = push_bit 16 (mask 2)"
  "(0x000C0000::int) = push_bit 18 (mask 2)"
  "(0x00300000::int) = push_bit 20 (mask 2)"
  "(0x07000000::int) = push_bit 24 (mask 3)"
  "(0x70000000::int) = push_bit 28 (mask 3)"
  by (simp_all add: mask_eq_exp_minus_1 push_bit_eq_mult)

lemma take_bit_2_cases:
  "take_bit 2 (x::int) = 0 \<or> take_bit 2 x = 1 \<or> take_bit 2 x = 2 \<or> take_bit 2 x = 3"
proof -
  have "0 \<le> take_bit 2 x" by simp
  moreover have "take_bit 2 x < 4" using take_bit_int_less_exp [of 2 x] by simp
  ultimately show ?thesis by arith
qed

lemma branchCount_decoded:
  "branchCount (interpretChromosomeValue i v) = take_bit 2 (drop_bit 16 v)"
  unfolding interpretChromosomeValue_def Let_def BRANCH_COUNT_GENE_BITS_def
    BRANCH_COUNT_SHIFT_NUMBER_def gene_masks
  by (simp add: drop_bit_push_bit take_bit_eq_mask)

lemma terminated_decoded:
  "terminated (interpretChromosomeValue i v) \<longleftrightarrow> take_bit 2 (drop_bit 16 v) = 0"
  unfolding interpretChromosomeValue_def Let_def SEGMENT_TERMINATION_GENE_BITS_def
    SEGMENT_TERMINATED_def gene_masks
  by (simp add: and_shifted_mask)

lemma symmetryBits_decoded:
  "symmetryBits (interpretChromosomeValue i v) = take_bit 2 (drop_bit 12 v)"
  unfolding interpretChromosomeValue_def Let_def SYMMETRY_GENE_BITS_def
    SYMMETRY_SHIFT_NUMBER_def gene_masks
  by (simp add: drop_bit_push_bit take_bit_eq_mask)

lemma lineWidth_decoded:
  "lineWidth (interpretChromosomeValue i v) = take_bit 2 (drop_bit 20 v)"
  unfolding interpretChromosomeValue_def Let_def LINE_WIDTH_GENE_BITS_def
    LINE_WIDTH_SHIFT_NUMBER_def gene_masks and_shifted_mask
  by (simp add: drop_bit_eq_div push_bit_eq_mult)

text \<open>The colour offsets are within the table of colours, so decoding raises nothing.\<close>

lemma color_offset_in_table:
  "nat (drop_bit n (v AND m) mod MAX_COLORS) < length SEGMENT_COLORS"
proof -
  have "drop_bit n (v AND m) mod 8 < 8" by simp
  then show ?thesis
    by (simp add: MAX_COLORS_def SEGMENT_COLORS_def nat_less_iff)
qed

lemma chromosomeValue_decoded [simp]:
  "chromosomeValue (interpretChromosomeValue i v) = v"
  by (simp add: interpretChromosomeValue_def Let_def)

lemma index_decoded [simp]:
  "index (interpretChromosomeValue i v) = i"
  by (simp add: interpretChromosomeValue_def Let_def)

lemma length_seg_decoded:
  "length_seg (interpretChromosomeValue i v) = take_bit 5 (drop_bit 6 v)"
  unfolding interpretChromosomeValue_def Let_def LENGTH_GENE_BITS_def
    LENGTH_SHIFT_NUMBER_def gene_masks
  by (simp add: drop_bit_push_bit take_bit_eq_mask)

lemma shape_decoded:
  "shape (interpretChromosomeValue i v) = take_bit 2 (drop_bit 18 v)"
  unfolding interpretChromosomeValue_def Let_def SHAPE_GENE_BITS_def
    SHAPE_SHIFT_NUMBER_def gene_masks
  by (simp add: drop_bit_push_bit take_bit_eq_mask)

lemma branchAngle_decoded:
  "branchAngle (interpretChromosomeValue i v) = take_bit 6 v"
  unfolding interpretChromosomeValue_def Let_def BRANCH_ANGLE_GENE_BITS_def
    BRANCH_ANGLE_SHIFT_NUMBER_def gene_masks
  by (simp add: take_bit_eq_mask)

lemmas decoded = branchCount_decoded terminated_decoded symmetryBits_decoded
  length_seg_decoded shape_decoded branchAngle_decoded lineWidth_decoded

lemma branchCount_nonneg: "0 \<le> branchCount (interpretChromosomeValue i v)"
  by (simp add: branchCount_decoded)

section \<open>The cursor after each operation\<close>

lemma restore_fields [simp]:
  "t_x (restore p pen) = xPosition p"
  "t_y (restore p pen) = yPosition p"
  "t_heading (restore p pen) = heading p"
  "t_down (restore p pen) = False"
  "t_drawn (restore p pen) = t_drawn pen"
  "t_pencolor (restore p pen) = t_pencolor pen"
  "t_fillcolor (restore p pen) = t_fillcolor pen"
  "t_width (restore p pen) = t_width pen"
  by (simp_all add: restore_def penup_def setposition_def setheading_def)

lemma forward_fields [simp]:
  "t_x (forward geo d pen) = t_x pen + real_of_int d * fst (unitVector geo (t_heading pen))"
  "t_y (forward geo d pen) = t_y pen + real_of_int d * snd (unitVector geo (t_heading pen))"
  "t_heading (forward geo d pen) = t_heading pen"
  "t_down (forward geo d pen) = t_down pen"
  "t_pencolor (forward geo d pen) = t_pencolor pen"
  "t_fillcolor (forward geo d pen) = t_fillcolor pen"
  "t_width (forward geo d pen) = t_width pen"
  by (simp_all add: forward_def setposition_def split_beta Let_def)

lemma forward_drawn_up [simp]:
  "\<not> t_down pen \<Longrightarrow> t_drawn (forward geo d pen) = t_drawn pen"
  by (simp add: forward_def setposition_def split_beta Let_def)

lemma turn_fields [simp]:
  "t_x (left geo a pen) = t_x pen" "t_y (left geo a pen) = t_y pen"
  "t_down (left geo a pen) = t_down pen" "t_drawn (left geo a pen) = t_drawn pen"
  "t_x (right geo a pen) = t_x pen" "t_y (right geo a pen) = t_y pen"
  "t_down (right geo a pen) = t_down pen" "t_drawn (right geo a pen) = t_drawn pen"
  by (simp_all add: left_def right_def)

lemma penup_fields [simp]:
  "t_x (penup pen) = t_x pen" "t_y (penup pen) = t_y pen"
  "t_heading (penup pen) = t_heading pen" "t_down (penup pen) = False"
  "t_drawn (penup pen) = t_drawn pen"
  by (simp_all add: penup_def)

lemma PenPosition_advanced:
  "PenPosition (forward geo d pen) ch = advanced geo (PenPosition pen ch) d"
  by (simp add: PenPosition_def advanced_def)

lemma advanced_advanced:
  "advanced geo (advanced geo p a) b = advanced geo p (a + b)"
  by (simp add: advanced_def algebra_simps)

lemma advanced_zero [simp]: "advanced geo p 0 = p"
  by (simp add: advanced_def)

lemma PenPosition_restore [simp]:
  "PenPosition (restore p pen) (chiralityRight p) = p"
  by (simp add: PenPosition_def)

lemma degrees_up [simp]: "unitVector degrees 90 = (0, 1)"
  by (simp add: degrees_def)

section \<open>Line width\<close>

text \<open>
  C2. The decoded line width is claimed to be the field at bits 20 and 21 plus one. At the
  raw value 0 the constructor stores the line width 0, where the documented width is 1:
  the increment is added below the field and shifted away.
\<close>

theorem lineWidth_at_zero:
  "lineWidth (fst (Chromosome 0 (Some 0) g)) = 0 \<and> documentedLineWidth 0 = 1"
  by (simp add: Chromosome_def lineWidth_decoded documentedLineWidth_def)

section \<open>Child segment positions\<close>

lemma straightBranches_positions:
  "fst (straightBranches geo n len ch pen) =
     map (\<lambda>i. advanced geo (PenPosition pen ch) (int i * len)) [0..<n]"
proof (induction n arbitrary: pen)
  case 0
  show ?case by simp
next
  case (Suc n)
  have "fst (straightBranches geo (Suc n) len ch pen) =
          PenPosition pen ch # fst (straightBranches geo n len ch (forward geo len pen))"
    by (simp add: split_beta Let_def)
  also have "\<dots> = PenPosition pen ch #
       map (\<lambda>i. advanced geo (PenPosition pen ch) (int (Suc i) * len)) [0..<n]"
    by (simp add: Suc.IH PenPosition_advanced advanced_advanced algebra_simps)
  also have "\<dots> =
       map (\<lambda>i. advanced geo (PenPosition pen ch) (int i * len)) (0 # map Suc [0..<n])"
    by (simp add: comp_def)
  also have "0 # map Suc [0..<n] = [0..<Suc n]"
    by (simp add: map_Suc_upt upt_conv_Cons del: upt_Suc)
  finally show ?case .
qed

lemma straightBranches_length [simp]:
  "length (fst (straightBranches geo n len ch pen)) = n"
  by (simp add: straightBranches_positions)

lemma angledBranches_length [simp]:
  "length (fst (angledBranches geo n a ch pen)) = n"
  by (induction n arbitrary: pen) (simp_all add: split_beta Let_def)

lemma childSegmentPositions_terminated:
  "terminated c \<Longrightarrow> fst (childSegmentPositions geo c prior pen) = []"
  by (simp add: childSegmentPositions_def Let_def)

lemma childSegmentPositions_length:
  "\<not> terminated c \<Longrightarrow>
   length (fst (childSegmentPositions geo c prior pen)) =
     (if symmetryBits c = SYMMETRY_STRAIGHT_VALUE then nat (branchCount c)
      else (if symmetryBits c AND SYMMETRY_SAME_HANDED_VALUE \<noteq> 0 then nat (branchCount c) else 0)
         + (if symmetryBits c AND SYMMETRY_OPPOSITE_HANDED_VALUE \<noteq> 0 then nat (branchCount c) else 0))"
  by (simp add: childSegmentPositions_def Let_def split_beta)

text \<open>
  C6. A chromosome that is not terminated, has the straight symmetry and a branch count
  of 1, 2 or 3 yields, from any parent end position, as many positions as its branch
  count; the \<open>i\<close>-th of them (from 0) is the parent end position moved by \<open>i\<close> times the
  length along the parent's heading, with the parent's heading and chirality.
\<close>

theorem straight_children:
  assumes "\<not> terminated c"
    and "symmetryBits c = SYMMETRY_STRAIGHT_VALUE"
    and "branchCount c \<in> {1, 2, 3}"
  shows "length (fst (childSegmentPositions geo c prior pen)) = nat (branchCount c) \<and>
         (\<forall>i < nat (branchCount c).
            fst (childSegmentPositions geo c prior pen) ! i =
              advanced geo prior (int i * length_seg c))"
  using assms
  by (simp add: childSegmentPositions_def Let_def straightBranches_positions)

text \<open>
  The raw value 0x20280 decodes to two branches, straight symmetry and length 10: from the
  origin pointing up, the children start at the origin and ten units above it.
\<close>

theorem straight_children_witness:
  "\<not> terminated (interpretChromosomeValue 0 0x20280) \<and>
   symmetryBits (interpretChromosomeValue 0 0x20280) = SYMMETRY_STRAIGHT_VALUE \<and>
   branchCount (interpretChromosomeValue 0 0x20280) = 2 \<and>
   fst (childSegmentPositions degrees (interpretChromosomeValue 0 0x20280) exampleStart examplePen)
     = [exampleStart, exampleStart\<lparr>yPosition := 10\<rparr>]"
proof -
  let ?c = "interpretChromosomeValue 0 0x20280"
  let ?ps = "fst (childSegmentPositions degrees ?c exampleStart examplePen)"
  have h: "\<not> terminated ?c" "symmetryBits ?c = SYMMETRY_STRAIGHT_VALUE"
      "branchCount ?c \<in> {1, 2, 3}"
    and b: "branchCount ?c = 2" and l: "length_seg ?c = 10"
    by (simp_all add: decoded SYMMETRY_STRAIGHT_VALUE_def)
  from straight_children [OF h, of degrees exampleStart examplePen]
  have n: "length ?ps = 2" and "?ps ! 0 = advanced degrees exampleStart 0"
    and "?ps ! 1 = advanced degrees exampleStart 10"
    by (simp_all add: b l)
  then have "?ps ! 0 = exampleStart" "?ps ! 1 = exampleStart\<lparr>yPosition := 10\<rparr>"
    by (simp_all add: advanced_def exampleStart_def)
  with n have "?ps = [exampleStart, exampleStart\<lparr>yPosition := 10\<rparr>]"
    by (cases ?ps; cases "tl ?ps") auto
  with h b show ?thesis by simp
qed

text \<open>
  C7. For the chromosome decoded from any raw value and any parent position: a terminated
  chromosome yields no positions; one that is not terminated yields twice its branch
  count when both handedness bits are set, and its branch count when only one is.
\<close>

theorem child_counts:
  "(terminated (interpretChromosomeValue i v) \<longrightarrow>
      fst (childSegmentPositions geo (interpretChromosomeValue i v) prior pen) = []) \<and>
   (\<not> terminated (interpretChromosomeValue i v) \<and>
    symmetryBits (interpretChromosomeValue i v) = SYMMETRY_BILATERAL_VALUE \<longrightarrow>
      int (length (fst (childSegmentPositions geo (interpretChromosomeValue i v) prior pen))) =
        2 * branchCount (interpretChromosomeValue i v)) \<and>
   (\<not> terminated (interpretChromosomeValue i v) \<and>
    (symmetryBits (interpretChromosomeValue i v) = SYMMETRY_SAME_HANDED_VALUE \<or>
     symmetryBits (interpretChromosomeValue i v) = SYMMETRY_OPPOSITE_HANDED_VALUE) \<longrightarrow>
      int (length (fst (childSegmentPositions geo (interpretChromosomeValue i v) prior pen))) =
        branchCount (interpretChromosomeValue i v))"
  using branchCount_nonneg [of i v]
  by (auto simp add: childSegmentPositions_terminated childSegmentPositions_length
      SYMMETRY_BILATERAL_VALUE_def SYMMETRY_SAME_HANDED_VALUE_def
      SYMMETRY_OPPOSITE_HANDED_VALUE_def SYMMETRY_STRAIGHT_VALUE_def)

text \<open>
  The raw value 0 is terminated; 0x33000 is bilateral with three branches, six children;
  0x21000 is same-handed and 0x22000 opposite-handed with two branches, two children.
\<close>

theorem child_counts_witness:
  "terminated (interpretChromosomeValue 0 0) \<and>
   fst (childSegmentPositions degrees (interpretChromosomeValue 0 0) exampleStart examplePen) = [] \<and>
   \<not> terminated (interpretChromosomeValue 0 0x33000) \<and>
   symmetryBits (interpretChromosomeValue 0 0x33000) = SYMMETRY_BILATERAL_VALUE \<and>
   length (fst (childSegmentPositions degrees (interpretChromosomeValue 0 0x33000)
                  exampleStart examplePen)) = 6 \<and>
   \<not> terminated (interpretChromosomeValue 0 0x21000) \<and>
   symmetryBits (interpretChromosomeValue 0 0x21000) = SYMMETRY_SAME_HANDED_VALUE \<and>
   length (fst (childSegmentPositions degrees (interpretChromosomeValue 0 0x21000)
                  exampleStart examplePen)) = 2 \<and>
   \<not> terminated (interpretChromosomeValue 0 0x22000) \<and>
   symmetryBits (interpretChromosomeValue 0 0x22000) = SYMMETRY_OPPOSITE_HANDED_VALUE \<and>
   length (fst (childSegmentPositions degrees (interpretChromosomeValue 0 0x22000)
                  exampleStart examplePen)) = 2"
proof -
  have d: "terminated (interpretChromosomeValue 0 0)"
    "\<not> terminated (interpretChromosomeValue 0 0x33000)"
    "symmetryBits (interpretChromosomeValue 0 0x33000) = SYMMETRY_BILATERAL_VALUE"
    "branchCount (interpretChromosomeValue 0 0x33000) = 3"
    "\<not> terminated (interpretChromosomeValue 0 0x21000)"
    "symmetryBits (interpretChromosomeValue 0 0x21000) = SYMMETRY_SAME_HANDED_VALUE"
    "branchCount (interpretChromosomeValue 0 0x21000) = 2"
    "\<not> terminated (interpretChromosomeValue 0 0x22000)"
    "symmetryBits (interpretChromosomeValue 0 0x22000) = SYMMETRY_OPPOSITE_HANDED_VALUE"
    "branchCount (interpretChromosomeValue 0 0x22000) = 2"
    by (simp_all add: decoded SYMMETRY_BILATERAL_VALUE_def SYMMETRY_SAME_HANDED_VALUE_def
        SYMMETRY_OPPOSITE_HANDED_VALUE_def)
  show ?thesis
    using child_counts [of 0 0 degrees exampleStart examplePen]
      child_counts [of 0 "0x33000" degrees exampleStart examplePen]
      child_counts [of 0 "0x21000" degrees exampleStart examplePen]
      child_counts [of 0 "0x22000" degrees exampleStart examplePen]
    by (simp add: d)
qed

section \<open>Where a tested and a drawn segment end\<close>

lemma segmentOutOfBounds_end:
  assumes "shape c \<noteq> SHAPE_LINE_VALUE"
    and "segmentOutOfBounds geo c (Some panel) (Some p) pen = (False, pen1)"
  shows "PenPosition pen1 (chiralityRight p) = advanced geo p (2 * (length_seg c div 2))"
proof -
  from assms have "pen1 = forward geo (drop_bit 1 (length_seg c))
      (forward geo (drop_bit 1 (length_seg c)) (restore p pen))"
    by (simp add: segmentOutOfBounds_def Let_def split: if_splits)
  then show ?thesis
    by (simp add: PenPosition_def advanced_def drop_bit_eq_div algebra_simps)
qed

lemma drawSingleSegment_end:
  "PenPosition (drawSingleSegment geo c (Some panel) (Some p) pen) (chiralityRight p) =
     advanced geo p (length_seg c)"
  by (simp add: drawSingleSegment_def Let_def PenPosition_def advanced_def pendown_def
      pencolor_def fillcolor_def width_def)

text \<open>
  C10. For a segment that is not a line and passes the bounds test, the test leaves the
  pen at the start moved by twice the halved length along the heading, and drawing the
  segment leaves it at the start moved by the whole length. The first is the position
  \<open>display\<close> saves as the end of the segment to grow the next chromosome from; for an odd
  length, moving it one more unit gives the end of the drawn segment.
\<close>

theorem validated_end_short:
  assumes "shape c \<noteq> SHAPE_LINE_VALUE"
    and "segmentOutOfBounds geo c (Some panel) (Some p) pen = (False, pen1)"
  shows "PenPosition pen1 (chiralityRight p) = advanced geo p (2 * (length_seg c div 2)) \<and>
         PenPosition (drawSingleSegment geo c (Some panel) (Some p) pen') (chiralityRight p) =
           advanced geo p (length_seg c) \<and>
         (odd (length_seg c) \<longrightarrow>
            advanced geo (PenPosition pen1 (chiralityRight p)) 1 =
              PenPosition (drawSingleSegment geo c (Some panel) (Some p) pen') (chiralityRight p))"
proof -
  have "odd (length_seg c) \<Longrightarrow> 2 * (length_seg c div 2) + 1 = length_seg c"
    by presburger
  then show ?thesis
    using segmentOutOfBounds_end [OF assms]
    by (simp add: drawSingleSegment_end advanced_advanced)
qed

text \<open>
  The raw value 0x50140 decodes to a dot of length 5. From the origin pointing up inside
  the example panel the test passes and leaves the pen 4 units up; drawing leaves it 5
  units up.
\<close>

theorem validated_end_short_witness:
  "shape (interpretChromosomeValue 0 0x50140) \<noteq> SHAPE_LINE_VALUE \<and>
   odd (length_seg (interpretChromosomeValue 0 0x50140)) \<and>
   fst (segmentOutOfBounds degrees (interpretChromosomeValue 0 0x50140)
          (Some examplePanel) (Some exampleStart) examplePen) = False \<and>
   PenPosition (snd (segmentOutOfBounds degrees (interpretChromosomeValue 0 0x50140)
          (Some examplePanel) (Some exampleStart) examplePen)) True
     = exampleStart\<lparr>yPosition := 4\<rparr> \<and>
   PenPosition (drawSingleSegment degrees (interpretChromosomeValue 0 0x50140)
          (Some examplePanel) (Some exampleStart) examplePen) True
     = exampleStart\<lparr>yPosition := 5\<rparr>"
proof -
  let ?c = "interpretChromosomeValue 0 0x50140"
  let ?t = "segmentOutOfBounds degrees ?c (Some examplePanel) (Some exampleStart) examplePen"
  have s: "shape ?c \<noteq> SHAPE_LINE_VALUE" and l: "length_seg ?c = 5"
    by (simp_all add: decoded SHAPE_LINE_VALUE_def)
  have "fst ?t = False"
    by (simp add: segmentOutOfBounds_def Let_def s l examplePanel_def exampleStart_def)
  then have t: "?t = (False, snd ?t)"
    by (metis prod.collapse)
  from validated_end_short [OF s t, of examplePen] s l \<open>fst ?t = False\<close>
  show ?thesis
    by (simp add: advanced_def exampleStart_def)
qed

section \<open>Random construction\<close>

lemma range4: "[0..<CHROMOSOME_COUNT] = [0, 1, 2, 3]"
  by (simp add: CHROMOSOME_COUNT_def eval_nat_numeral)

lemma randint_range:
  "a \<le> b \<Longrightarrow> a \<le> fst (randint a b g) \<and> fst (randint a b g) \<le> b"
proof -
  assume "a \<le> b"
  then have "0 < nat (b - a + 1)" by simp
  then have "draws g (used g) mod nat (b - a + 1) < nat (b - a + 1)"
    by (rule mod_less_divisor)
  then show ?thesis by (simp add: randint_def)
qed

lemma random_value_bits:
  "bit (r OR SEGMENT_TERMINATION_PREVENT) 16"
  "take_bit 2 (drop_bit 16 (r OR SEGMENT_TERMINATION_PREVENT)) = 1 \<or>
   take_bit 2 (drop_bit 16 (r OR SEGMENT_TERMINATION_PREVENT)) = 3"
proof -
  have m: "SEGMENT_TERMINATION_PREVENT = push_bit 16 1"
    by (simp add: SEGMENT_TERMINATION_PREVENT_def)
  define x where "x = drop_bit 16 (r OR SEGMENT_TERMINATION_PREVENT)"
  show b: "bit (r OR SEGMENT_TERMINATION_PREVENT) 16"
    unfolding m by (simp add: bit_simps)
  then have "odd (drop_bit 16 (r OR SEGMENT_TERMINATION_PREVENT))"
    by (simp add: bit_iff_odd_drop_bit)
  then have "odd x"
    unfolding x_def .
  define y where "y = take_bit 2 x"
  from \<open>odd x\<close> have "odd y"
    unfolding y_def by (simp add: even_take_bit_eq)
  moreover have "y = 0 \<or> y = 1 \<or> y = 2 \<or> y = 3"
    unfolding y_def by (rule take_bit_2_cases)
  ultimately have "y = 1 \<or> y = 3"
    by auto
  then have "take_bit 2 x = 1 \<or> take_bit 2 x = 3"
    unfolding y_def .
  then show "take_bit 2 (drop_bit 16 (r OR SEGMENT_TERMINATION_PREVENT)) = 1 \<or>
        take_bit 2 (drop_bit 16 (r OR SEGMENT_TERMINATION_PREVENT)) = 3"
    unfolding x_def .
qed

lemma random_Chromosome: "unterminated (fst (Chromosome i None g))"
  using random_value_bits [of "fst (randint 0 0xFFFFFFFF g)"]
  by (auto simp add: unterminated_def Chromosome_def split_beta Let_def decoded)

lemma randomChromosomes_spec:
  "randomChromosomes ks g s = (as, g', s') \<Longrightarrow>
     length as = length ks \<and> allocated s' = allocated s + length ks \<and>
     sequences s' = sequences s \<and>
     (\<forall>a < allocated s. objects s' a = objects s a) \<and>
     (\<forall>a \<in> set as. allocated s \<le> a \<and> a < allocated s' \<and> unterminated (objects s' a))"
proof (induction ks arbitrary: g s as g' s')
  case Nil
  then show ?case by simp
next
  case (Cons k ks)
  obtain c g1 where c: "Chromosome k None g = (c, g1)" by (cases "Chromosome k None g")
  obtain a s1 where a: "new c s = (a, s1)" by (cases "new c s")
  obtain as2 g2 s2 where r: "randomChromosomes ks g1 s1 = (as2, g2, s2)"
    by (cases "randomChromosomes ks g1 s1")
  from Cons.prems c a r have res: "as = a # as2" "g' = g2" "s' = s2"
    by simp_all
  from a have a_def: "a = allocated s" "allocated s1 = Suc (allocated s)"
    "objects s1 = (objects s)(allocated s := c)" "sequences s1 = sequences s"
    by (auto simp add: new_def)
  from c have uc: "unterminated c"
    using random_Chromosome [of k g] by simp
  from Cons.IH [OF r] have ih:
    "length as2 = length ks" "allocated s2 = allocated s1 + length ks"
    "sequences s2 = sequences s1"
    "\<forall>b < allocated s1. objects s2 b = objects s1 b"
    "\<forall>b \<in> set as2. allocated s1 \<le> b \<and> b < allocated s2 \<and> unterminated (objects s2 b)"
    by auto
  have "objects s2 a = c" using ih(4) a_def by simp
  with uc ih a_def show ?case
    unfolding res by auto
qed

text \<open>
  C9. A chromosome constructed without a value has bit 16 of its raw value set, is not
  terminated and has a branch count of 1 or 3, whatever the random source yields; so a
  genotype constructed without chromosomes has four chromosomes, none of them terminated.
\<close>

theorem random_genotype_unterminated:
  "bit (chromosomeValue (fst (Chromosome i None g))) 16 \<and>
   \<not> terminated (fst (Chromosome i None g)) \<and>
   (branchCount (fst (Chromosome i None g)) = 1 \<or> branchCount (fst (Chromosome i None g)) = 3) \<and>
   (case Genotype None g s of
      (gt, g', s') \<Rightarrow>
        length (sequences s' (chromosomes gt)) = CHROMOSOME_COUNT \<and>
        (\<forall>a \<in> set (sequences s' (chromosomes gt)). \<not> terminated (objects s' a)))"
proof -
  obtain as g' s' where r: "randomChromosomes [0..<CHROMOSOME_COUNT] g s = (as, g', s')"
    by (cases "randomChromosomes [0..<CHROMOSOME_COUNT] g s")
  from randomChromosomes_spec [OF r]
  have "length as = CHROMOSOME_COUNT" "\<forall>a \<in> set as. \<not> terminated (objects s' a)"
    by (simp_all add: unterminated_def)
  with r random_Chromosome [of i g] show ?thesis
    by (simp add: Genotype_def randomGenotype_def newList_def unterminated_def)
qed

text \<open>
  With a random source of zeros and an empty store, the genotype's list holds the four
  new chromosomes at addresses 0 to 3, none terminated.
\<close>

theorem random_genotype_unterminated_witness:
  "sequences (snd (snd (Genotype None zeroDraws emptyStore)))
     (chromosomes (fst (Genotype None zeroDraws emptyStore))) = [0, 1, 2, 3] \<and>
   \<not> terminated (objects (snd (snd (Genotype None zeroDraws emptyStore))) 0) \<and>
   \<not> terminated (objects (snd (snd (Genotype None zeroDraws emptyStore))) 1) \<and>
   \<not> terminated (objects (snd (snd (Genotype None zeroDraws emptyStore))) 2) \<and>
   \<not> terminated (objects (snd (snd (Genotype None zeroDraws emptyStore))) 3)"
proof -
  have l: "sequences (snd (snd (Genotype None zeroDraws emptyStore)))
     (chromosomes (fst (Genotype None zeroDraws emptyStore))) = [0, 1, 2, 3]"
    by (simp add: Genotype_def randomGenotype_def newList_def new_def range4
        split_beta Let_def emptyStore_def)
  from random_genotype_unterminated [of 0 zeroDraws emptyStore] l
  show ?thesis
    by (simp add: split_beta)
qed

section \<open>Mutation\<close>

lemma flipsDrawn_length [simp]: "length (flipsDrawn n g) = n"
  by (induction n arbitrary: g) (simp_all add: split_beta Let_def)

lemma flipsDrawn_range:
  "(ci, b) \<in> set (flipsDrawn n g) \<Longrightarrow> ci < CHROMOSOME_COUNT \<and> b < 32"
proof (induction n arbitrary: g)
  case 0
  then show ?case by simp
next
  case (Suc n)
  have r1: "0 \<le> fst (randint 0 (int CHROMOSOME_COUNT - 1) g) \<and>
        fst (randint 0 (int CHROMOSOME_COUNT - 1) g) \<le> int CHROMOSOME_COUNT - 1"
    by (rule randint_range) (simp add: CHROMOSOME_COUNT_def)
  have r2: "0 \<le> fst (randint 0 31 g') \<and> fst (randint 0 31 g') \<le> 31" for g'
    by (rule randint_range) simp
  from Suc.prems show ?case
    using r1 r2 [of "snd (randint 0 (int CHROMOSOME_COUNT - 1) g)"] Suc.IH
    by (auto simp add: split_beta Let_def CHROMOSOME_COUNT_def)
qed

lemma mutate_length [simp]: "length (fst (mutate n vals g)) = length vals"
  by (induction n arbitrary: vals g) (simp_all add: split_beta Let_def)

lemma mutate_values:
  "i < length vals \<Longrightarrow>
   fst (mutate n vals g) ! i = vals ! i XOR flipMask (flipsDrawn n g) i"
proof (induction n arbitrary: vals g)
  case 0
  then show ?case by simp
next
  case (Suc n)
  then show ?case
    by (simp add: split_beta Let_def nth_list_update xor.assoc)
qed

lemma flipMask_zero:
  "i \<notin> fst ` set flips \<Longrightarrow> flipMask flips i = 0"
  by (induction flips) auto

lemma changed_le_flips:
  "card {i. flipMask flips i \<noteq> 0} \<le> length flips"
proof -
  have "{i. flipMask flips i \<noteq> 0} \<subseteq> fst ` set flips"
    using flipMask_zero by blast
  then have "card {i. flipMask flips i \<noteq> 0} \<le> card (fst ` set flips)"
    by (intro card_mono) simp_all
  also have "\<dots> \<le> card (set flips)" by (rule card_image_le) simp
  also have "\<dots> \<le> length flips" by (rule card_length)
  finally show ?thesis .
qed

lemma xor_changes: "(v::int) XOR m \<noteq> v \<longleftrightarrow> m \<noteq> 0"
proof
  assume "v XOR m \<noteq> v" then show "m \<noteq> 0" by auto
next
  assume "m \<noteq> 0"
  show "v XOR m \<noteq> v"
  proof
    assume "v XOR m = v"
    then have "v XOR (v XOR m) = v XOR v" by simp
    then have "m = 0" by (simp flip: xor.assoc)
    with \<open>m \<noteq> 0\<close> show False by simp
  qed
qed

lemma one_bit_nonzero: "push_bit b (1::int) \<noteq> 0"
  by (simp add: push_bit_eq_mult)

lemma two_bits_cancel: "push_bit a (1::int) XOR push_bit b 1 = 0 \<longleftrightarrow> a = b"
proof
  assume "push_bit a (1::int) XOR push_bit b 1 = 0"
  then have "(push_bit a (1::int) XOR push_bit b 1) XOR push_bit b 1 = push_bit b 1"
    by simp
  then have "push_bit a (1::int) = push_bit b 1"
    by (simp add: xor.assoc)
  then have "(2::int) ^ a = 2 ^ b" by (simp add: push_bit_eq_mult)
  then show "a = b" by simp
qed simp

lemma two_powers_cancel: "(2::int) ^ a XOR 2 ^ b = 0 \<longleftrightarrow> a = b"
  using two_bits_cancel [of a b] by simp

lemma replaceMutated_spec:
  assumes "replaceMutated ks l vals g s = (g', s')"
    and "distinct ks"
    and "\<forall>k \<in> set ks. k < length (sequences s l)"
    and "\<forall>a \<in> set (sequences s l). a < allocated s"
  shows "g' = g \<and> allocated s \<le> allocated s' \<and>
         (\<forall>a < allocated s. objects s' a = objects s a) \<and>
         (\<forall>a. a \<noteq> l \<longrightarrow> sequences s' a = sequences s a) \<and>
         length (sequences s' l) = length (sequences s l) \<and>
         (\<forall>a \<in> set (sequences s' l). a < allocated s') \<and>
         (\<forall>i < length (sequences s l).
            if i \<in> set ks \<and> chromosomeValue (objects s (sequences s l ! i)) \<noteq> vals ! i
            then allocated s \<le> sequences s' l ! i \<and>
                 objects s' (sequences s' l ! i) = interpretChromosomeValue i (vals ! i)
            else sequences s' l ! i = sequences s l ! i)"
  using assms
proof (induction ks arbitrary: g s)
  case Nil
  then show ?case by simp
next
  case (Cons k ks)
  let ?xs = "sequences s l"
  from Cons.prems have k: "k < length ?xs" "k \<notin> set ks" "distinct ks"
    and ks: "\<forall>j \<in> set ks. j < length ?xs"
    and live: "\<forall>a \<in> set ?xs. a < allocated s"
    by simp_all
  show ?case
  proof (cases "chromosomeValue (objects s (?xs ! k)) \<noteq> vals ! k")
    case False
    with Cons.prems have r: "replaceMutated ks l vals g s = (g', s')"
      by simp
    from Cons.IH [OF r k(3) ks live] False k show ?thesis
      by auto
  next
    case True
    define c where "c = interpretChromosomeValue k (vals ! k)"
    define s1 where "s1 = setItem l k (allocated s) (snd (new c s))"
    have s1: "allocated s1 = Suc (allocated s)"
      "objects s1 = (objects s)(allocated s := c)"
      "sequences s1 = (sequences s)(l := ?xs[k := allocated s])"
      by (simp_all add: s1_def setItem_def new_def)
    from True Cons.prems have r: "replaceMutated ks l vals g s1 = (g', s')"
      by (simp add: Chromosome_def new_def s1_def c_def)
    have xs1: "sequences s1 l = ?xs[k := allocated s]"
      by (simp add: s1)
    have ks1: "\<forall>j \<in> set ks. j < length (sequences s1 l)"
      using ks by (simp add: xs1)
    have live1: "\<forall>a \<in> set (sequences s1 l). a < allocated s1"
    proof
      fix a assume "a \<in> set (sequences s1 l)"
      then have "a \<in> insert (allocated s) (set ?xs)"
        unfolding xs1 using set_update_subset_insert by fastforce
      with live show "a < allocated s1" by (auto simp add: s1)
    qed
    note ih = Cons.IH [OF r k(3) ks1 live1]
    have frame: "\<forall>a < allocated s. objects s' a = objects s a"
      using ih by (simp add: s1)
    have seqs: "\<forall>a. a \<noteq> l \<longrightarrow> sequences s' a = sequences s a"
      using ih by (simp add: s1)
    have len: "length (sequences s' l) = length ?xs"
      using ih by (simp add: xs1)
    have each: "if i \<in> set (k # ks) \<and> chromosomeValue (objects s (?xs ! i)) \<noteq> vals ! i
            then allocated s \<le> sequences s' l ! i \<and>
                 objects s' (sequences s' l ! i) = interpretChromosomeValue i (vals ! i)
            else sequences s' l ! i = ?xs ! i" if i: "i < length ?xs" for i
    proof (cases "i = k")
      case True
      from ih k i have "sequences s' l ! k = allocated s"
        by (simp add: xs1)
      moreover from ih have "objects s' (allocated s) = c"
        by (simp add: s1)
      ultimately show ?thesis
        using True \<open>chromosomeValue (objects s (?xs ! k)) \<noteq> vals ! k\<close> by (simp add: c_def)
    next
      case False
      from i live have lt: "?xs ! i < allocated s" by simp
      have e1: "sequences s1 l ! i = ?xs ! i"
        using False by (simp add: xs1)
      have e2: "objects s1 (?xs ! i) = objects s (?xs ! i)"
        using lt by (simp add: s1)
      from ih i have "if i \<in> set ks \<and> chromosomeValue (objects s1 (sequences s1 l ! i)) \<noteq> vals ! i
            then allocated s1 \<le> sequences s' l ! i \<and>
                 objects s' (sequences s' l ! i) = interpretChromosomeValue i (vals ! i)
            else sequences s' l ! i = sequences s1 l ! i"
        by (simp add: xs1)
      then have "if i \<in> set ks \<and> chromosomeValue (objects s (?xs ! i)) \<noteq> vals ! i
            then Suc (allocated s) \<le> sequences s' l ! i \<and>
                 objects s' (sequences s' l ! i) = interpretChromosomeValue i (vals ! i)
            else sequences s' l ! i = ?xs ! i"
        unfolding e1 e2 s1(1) .
      then show ?thesis
        using False by (auto split: if_splits)
    qed
    from ih frame seqs len each show ?thesis
      by (simp add: s1)
  qed
qed

lemma mutatedCopy_spec:
  fixes g :: rng
  assumes len: "length (sequences s (chromosomes self)) = CHROMOSOME_COUNT"
    and live: "\<forall>a \<in> set (sequences s (chromosomes self)). a < allocated s"
  defines "fl \<equiv> mutationFlips g"
  shows "\<exists>child g' s'.
     mutatedCopy self g s = (Inr child, g', s') \<and>
     chromosomes child = allocated s \<and>
     (\<forall>a < allocated s. objects s' a = objects s a \<and> sequences s' a = sequences s a) \<and>
     length (sequences s' (chromosomes child)) = CHROMOSOME_COUNT \<and>
     (\<forall>i < CHROMOSOME_COUNT.
        chromosomeValue (objects s' (sequences s' (chromosomes child) ! i)) =
          chromosomeValue (objects s (sequences s (chromosomes self) ! i)) XOR flipMask fl i \<and>
        (if flipMask fl i \<noteq> 0
         then allocated s < sequences s' (chromosomes child) ! i \<and>
              objects s' (sequences s' (chromosomes child) ! i) =
                interpretChromosomeValue i
                  (chromosomeValue (objects s (sequences s (chromosomes self) ! i))
                     XOR flipMask fl i)
         else sequences s' (chromosomes child) ! i = sequences s (chromosomes self) ! i))"
proof -
  let ?xs = "sequences s (chromosomes self)"
  define l where "l = allocated s"
  define n where "n = nat (fst (randint 1 MUTATION_RATE_MAXIMUM g))"
  define g1 where "g1 = snd (randint 1 MUTATION_RATE_MAXIMUM g)"
  define vals0 where "vals0 = map (\<lambda>i. chromosomeValue (objects s (?xs ! i))) [0..<CHROMOSOME_COUNT]"
  define vals where "vals = fst (mutate n vals0 g1)"
  define g2 where "g2 = snd (mutate n vals0 g1)"
  define s1 where "s1 = snd (newList (map (\<lambda>i. ?xs ! i) [0..<CHROMOSOME_COUNT]) s)"
  obtain g3 s3 where r: "replaceMutated [0..<CHROMOSOME_COUNT] l vals g2 s1 = (g3, s3)"
    by (cases "replaceMutated [0..<CHROMOSOME_COUNT] l vals g2 s1")
  have copy: "map (\<lambda>i. ?xs ! i) [0..<CHROMOSOME_COUNT] = ?xs"
    using map_nth [of ?xs] by (simp add: len)
  have s1: "allocated s1 = Suc (allocated s)" "objects s1 = objects s"
    "sequences s1 = (sequences s)(l := ?xs)"
    by (simp_all add: s1_def newList_def copy l_def)
  have xs1: "sequences s1 l = ?xs" by (simp add: s1)
  have fl: "fl = flipsDrawn n g1" by (simp add: fl_def mutationFlips_def n_def g1_def)
  have vals: "vals ! i = chromosomeValue (objects s (?xs ! i)) XOR flipMask fl i"
    if "i < CHROMOSOME_COUNT" for i
    using that mutate_values [of i vals0 n g1] by (simp add: vals_def vals0_def fl)
  have "\<forall>k \<in> set [0..<CHROMOSOME_COUNT]. k < length (sequences s1 l)"
    by (simp add: xs1 len)
  moreover have "\<forall>a \<in> set (sequences s1 l). a < allocated s1"
    using live by (auto simp add: xs1 s1)
  ultimately have spec:
    "\<forall>a < allocated s1. objects s3 a = objects s1 a"
    "\<forall>a. a \<noteq> l \<longrightarrow> sequences s3 a = sequences s1 a"
    "length (sequences s3 l) = length (sequences s1 l)"
    "\<forall>i < length (sequences s1 l).
       if i \<in> set [0..<CHROMOSOME_COUNT] \<and>
          chromosomeValue (objects s1 (sequences s1 l ! i)) \<noteq> vals ! i
       then allocated s1 \<le> sequences s3 l ! i \<and>
            objects s3 (sequences s3 l ! i) = interpretChromosomeValue i (vals ! i)
       else sequences s3 l ! i = sequences s1 l ! i"
    using replaceMutated_spec [OF r] by simp_all
  have len3: "length (sequences s3 l) = CHROMOSOME_COUNT"
    using spec(3) by (simp add: xs1 len)
  have result: "mutatedCopy self g s = (Inr \<lparr>chromosomes = l\<rparr>, g3, s3)"
    using r [unfolded s1_def vals_def g2_def vals0_def n_def g1_def]
      len3 [unfolded r [symmetric, THEN arg_cong [of _ _ snd], simplified]
                     s1_def vals_def g2_def vals0_def n_def g1_def]
    by (simp add: mutatedCopy_def len split_beta Let_def Genotype_def newList_def l_def)
  have frame: "\<forall>a < allocated s. objects s3 a = objects s a \<and> sequences s3 a = sequences s a"
    using spec(1,2) by (simp add: s1 l_def)
  have each: "chromosomeValue (objects s3 (sequences s3 l ! i)) =
          chromosomeValue (objects s (?xs ! i)) XOR flipMask fl i \<and>
        (if flipMask fl i \<noteq> 0
         then allocated s < sequences s3 l ! i \<and>
              objects s3 (sequences s3 l ! i) =
                interpretChromosomeValue i (chromosomeValue (objects s (?xs ! i)) XOR flipMask fl i)
         else sequences s3 l ! i = ?xs ! i)" if i: "i < CHROMOSOME_COUNT" for i
  proof -
    let ?v = "chromosomeValue (objects s (?xs ! i))"
    from i have lt: "?xs ! i < allocated s" using live len by simp
    from spec(4) i have c: "if ?v \<noteq> vals ! i
       then allocated s1 \<le> sequences s3 l ! i \<and>
            objects s3 (sequences s3 l ! i) = interpretChromosomeValue i (vals ! i)
       else sequences s3 l ! i = ?xs ! i"
      by (simp add: xs1 len s1(2))
    show ?thesis
    proof (cases "flipMask fl i = 0")
      case True
      then have "vals ! i = ?v" using vals [OF i] by simp
      with c have "sequences s3 l ! i = ?xs ! i" by simp
      moreover from frame lt have "objects s3 (?xs ! i) = objects s (?xs ! i)" by simp
      ultimately show ?thesis using True by simp
    next
      case False
      then have "vals ! i \<noteq> ?v" using vals [OF i] xor_changes [of ?v "flipMask fl i"] by simp
      with c have "allocated s1 \<le> sequences s3 l ! i"
        "objects s3 (sequences s3 l ! i) = interpretChromosomeValue i (vals ! i)"
        by auto
      then show ?thesis using False vals [OF i] by (simp add: s1)
    qed
  qed
  from result frame len3 each show ?thesis
    unfolding l_def
    by (intro exI [of _ "\<lparr>chromosomes = allocated s\<rparr>"] exI [of _ g3] exI [of _ s3]) simp
qed

lemma mutationFlips_length:
  "length (mutationFlips g) = 1 \<or> length (mutationFlips g) = 2"
proof -
  have "1 \<le> fst (randint 1 MUTATION_RATE_MAXIMUM g) \<and>
        fst (randint 1 MUTATION_RATE_MAXIMUM g) \<le> MUTATION_RATE_MAXIMUM"
    by (rule randint_range) (simp add: MUTATION_RATE_MAXIMUM_def)
  then show ?thesis
    by (auto simp add: mutationFlips_def MUTATION_RATE_MAXIMUM_def)
qed

lemma mutationFlips_range:
  "(ci, b) \<in> set (mutationFlips g) \<Longrightarrow> ci < CHROMOSOME_COUNT \<and> b < 32"
  unfolding mutationFlips_def by (rule flipsDrawn_range)

lemma changed_card:
  "card {i. i < CHROMOSOME_COUNT \<and> flipMask fl i \<noteq> 0} \<le> length fl"
proof -
  have "card {i. i < CHROMOSOME_COUNT \<and> flipMask fl i \<noteq> 0} \<le> card {i. flipMask fl i \<noteq> 0}"
  proof (rule card_mono)
    have "{i. flipMask fl i \<noteq> 0} \<subseteq> fst ` set fl"
      using flipMask_zero by blast
    then show "finite {i. flipMask fl i \<noteq> 0}"
      by (rule finite_subset) simp
  qed auto
  also have "\<dots> \<le> length fl" by (rule changed_le_flips)
  finally show ?thesis .
qed

lemma some_changed:
  assumes "i < CHROMOSOME_COUNT" and "flipMask fl i \<noteq> 0"
  shows "1 \<le> card {i. i < CHROMOSOME_COUNT \<and> flipMask fl i \<noteq> 0}"
proof -
  have "finite {i. i < CHROMOSOME_COUNT \<and> flipMask fl i \<noteq> 0}" by simp
  moreover from assms have "i \<in> {i. i < CHROMOSOME_COUNT \<and> flipMask fl i \<noteq> 0}" by simp
  ultimately have "0 < card {i. i < CHROMOSOME_COUNT \<and> flipMask fl i \<noteq> 0}"
    using card_gt_0_iff by blast
  then show ?thesis by simp
qed

lemma flips_effect:
  assumes "length fl = 1 \<or> length fl = 2"
    and "\<forall>(ci, b) \<in> set fl. ci < CHROMOSOME_COUNT \<and> b < 32"
  shows "if length fl = 2 \<and> fl ! 0 = fl ! 1
         then \<forall>i. flipMask fl i = 0
         else 1 \<le> card {i. i < CHROMOSOME_COUNT \<and> flipMask fl i \<noteq> 0}"
proof -
  from assms(1) consider
      (one) c b where "fl = [(c, b)]"
    | (two) c1 b1 c2 b2 where "fl = [(c1, b1), (c2, b2)]"
    by (cases fl; cases "tl fl"; cases "tl (tl fl)") auto
  then show ?thesis
  proof cases
    case one
    with assms(2) have "c < CHROMOSOME_COUNT" "flipMask fl c \<noteq> 0"
      by (simp_all add: one_bit_nonzero)
    then have "1 \<le> card {i. i < CHROMOSOME_COUNT \<and> flipMask fl i \<noteq> 0}"
      by (rule some_changed)
    with one show ?thesis by simp
  next
    case two
    show ?thesis
    proof (cases "(c1, b1) = (c2, b2)")
      case True
      with two show ?thesis by simp
    next
      case False
      from two assms(2) have c1: "c1 < CHROMOSOME_COUNT" by simp
      have "flipMask fl c1 \<noteq> 0"
      proof (cases "c1 = c2")
        case True
        with False have "b1 \<noteq> b2" by simp
        then show ?thesis using two True by (simp add: two_powers_cancel)
      next
        case False
        then show ?thesis using two by (simp add: one_bit_nonzero)
      qed
      with c1 have "1 \<le> card {i. i < CHROMOSOME_COUNT \<and> flipMask fl i \<noteq> 0}"
        by (rule some_changed)
      with two False show ?thesis by simp
    qed
  qed
qed

lemma mutatedCopy_cases:
  assumes "length (sequences s (chromosomes self)) = CHROMOSOME_COUNT"
    and "\<forall>a \<in> set (sequences s (chromosomes self)). a < allocated s"
    and m: "mutatedCopy self g s = (r, g', s')"
  obtains child where "r = Inr child"
    and "chromosomes child = allocated s"
    and "\<forall>a < allocated s. objects s' a = objects s a \<and> sequences s' a = sequences s a"
    and "length (sequences s' (chromosomes child)) = CHROMOSOME_COUNT"
    and "\<And>i. i < CHROMOSOME_COUNT \<Longrightarrow>
        chromosomeValue (objects s' (sequences s' (chromosomes child) ! i)) =
          chromosomeValue (objects s (sequences s (chromosomes self) ! i))
            XOR flipMask (mutationFlips g) i"
    and "\<And>i. i < CHROMOSOME_COUNT \<Longrightarrow>
        if flipMask (mutationFlips g) i \<noteq> 0
        then allocated s < sequences s' (chromosomes child) ! i \<and>
             objects s' (sequences s' (chromosomes child) ! i) =
               interpretChromosomeValue i
                 (chromosomeValue (objects s (sequences s (chromosomes self) ! i))
                    XOR flipMask (mutationFlips g) i)
        else sequences s' (chromosomes child) ! i = sequences s (chromosomes self) ! i"
proof -
  from mutatedCopy_spec [OF assms(1,2), of g]
  obtain child g0 s0 where c: "mutatedCopy self g s = (Inr child, g0, s0)"
    and rest: "chromosomes child = allocated s"
      "\<forall>a < allocated s. objects s0 a = objects s a \<and> sequences s0 a = sequences s a"
      "length (sequences s0 (chromosomes child)) = CHROMOSOME_COUNT"
      "\<forall>i < CHROMOSOME_COUNT.
        chromosomeValue (objects s0 (sequences s0 (chromosomes child) ! i)) =
          chromosomeValue (objects s (sequences s (chromosomes self) ! i))
            XOR flipMask (mutationFlips g) i \<and>
        (if flipMask (mutationFlips g) i \<noteq> 0
         then allocated s < sequences s0 (chromosomes child) ! i \<and>
              objects s0 (sequences s0 (chromosomes child) ! i) =
                interpretChromosomeValue i
                  (chromosomeValue (objects s (sequences s (chromosomes self) ! i))
                     XOR flipMask (mutationFlips g) i)
         else sequences s0 (chromosomes child) ! i = sequences s (chromosomes self) ! i)"
    by blast
  from c m have e: "r = Inr child" "s0 = s'" by simp_all
  show thesis
  proof (rule that [of child])
    show "r = Inr child" by (rule e)
    show "chromosomes child = allocated s" by (rule rest)
    show "\<forall>a < allocated s. objects s' a = objects s a \<and> sequences s' a = sequences s a"
      using rest(2) unfolding e .
    show "length (sequences s' (chromosomes child)) = CHROMOSOME_COUNT"
      using rest(3) unfolding e .
    show "chromosomeValue (objects s' (sequences s' (chromosomes child) ! i)) =
          chromosomeValue (objects s (sequences s (chromosomes self) ! i))
            XOR flipMask (mutationFlips g) i" if "i < CHROMOSOME_COUNT" for i
      using rest(4) that unfolding e by blast
    show "if flipMask (mutationFlips g) i \<noteq> 0
        then allocated s < sequences s' (chromosomes child) ! i \<and>
             objects s' (sequences s' (chromosomes child) ! i) =
               interpretChromosomeValue i
                 (chromosomeValue (objects s (sequences s (chromosomes self) ! i))
                    XOR flipMask (mutationFlips g) i)
        else sequences s' (chromosomes child) ! i = sequences s (chromosomes self) ! i"
      if "i < CHROMOSOME_COUNT" for i
      using rest(4) that unfolding e by blast
  qed
qed

text \<open>
  C3, amended. For a genotype of four chromosomes, \<open>mutatedCopy\<close> makes one or two flips,
  each of one bit among bits 0 to 31 of one of the four raw values, by exclusive or; the
  raw value of every chromosome of the returned genotype is the parent's with the bits
  flipped at its index; at most two raw values differ from the parent's; none differs
  when the two flips are of the same bit of the same chromosome, and at least one does
  otherwise.
\<close>

theorem mutatedCopy_flips:
  assumes "length (sequences s (chromosomes self)) = CHROMOSOME_COUNT"
    and "\<forall>a \<in> set (sequences s (chromosomes self)). a < allocated s"
    and "mutatedCopy self g s = (r, g', s')"
  shows "\<exists>child. r = Inr child \<and>
     (length (mutationFlips g) = 1 \<or> length (mutationFlips g) = 2) \<and>
     (\<forall>(ci, b) \<in> set (mutationFlips g). ci < CHROMOSOME_COUNT \<and> b < 32) \<and>
     length (rawValues s' child) = CHROMOSOME_COUNT \<and>
     (\<forall>i < CHROMOSOME_COUNT.
        rawValues s' child ! i = rawValues s self ! i XOR flipMask (mutationFlips g) i) \<and>
     card {i. i < CHROMOSOME_COUNT \<and> rawValues s' child ! i \<noteq> rawValues s self ! i} \<le> 2 \<and>
     (if length (mutationFlips g) = 2 \<and> mutationFlips g ! 0 = mutationFlips g ! 1
      then rawValues s' child = rawValues s self
      else 1 \<le> card {i. i < CHROMOSOME_COUNT \<and>
                         rawValues s' child ! i \<noteq> rawValues s self ! i})"
proof -
  let ?fl = "mutationFlips g"
  from assms obtain child where child: "r = Inr child"
    and at: "chromosomes child = allocated s"
    and frame: "\<forall>a < allocated s. objects s' a = objects s a \<and> sequences s' a = sequences s a"
    and len: "length (sequences s' (chromosomes child)) = CHROMOSOME_COUNT"
    and vals: "\<And>i. i < CHROMOSOME_COUNT \<Longrightarrow>
        chromosomeValue (objects s' (sequences s' (chromosomes child) ! i)) =
          chromosomeValue (objects s (sequences s (chromosomes self) ! i)) XOR flipMask ?fl i"
    and each: "\<And>i. i < CHROMOSOME_COUNT \<Longrightarrow>
        if flipMask ?fl i \<noteq> 0
        then allocated s < sequences s' (chromosomes child) ! i \<and>
             objects s' (sequences s' (chromosomes child) ! i) =
               interpretChromosomeValue i
                 (chromosomeValue (objects s (sequences s (chromosomes self) ! i))
                    XOR flipMask ?fl i)
        else sequences s' (chromosomes child) ! i = sequences s (chromosomes self) ! i"
    by (rule mutatedCopy_cases) (rule that; assumption)
  have raw: "rawValues s' child ! i = rawValues s self ! i XOR flipMask ?fl i"
    if "i < CHROMOSOME_COUNT" for i
    using that vals len assms(1) by (simp add: rawValues_def)
  have lens: "length (rawValues s' child) = CHROMOSOME_COUNT"
    "length (rawValues s self) = CHROMOSOME_COUNT"
    using len assms(1) by (simp_all add: rawValues_def)
  have changed: "{i. i < CHROMOSOME_COUNT \<and> rawValues s' child ! i \<noteq> rawValues s self ! i} =
      {i. i < CHROMOSOME_COUNT \<and> flipMask ?fl i \<noteq> 0}"
    using raw xor_changes by auto
  have fl: "length ?fl = 1 \<or> length ?fl = 2"
    by (rule mutationFlips_length)
  have rng: "\<forall>(ci, b) \<in> set ?fl. ci < CHROMOSOME_COUNT \<and> b < 32"
    using mutationFlips_range by auto
  have "card {i. i < CHROMOSOME_COUNT \<and> flipMask ?fl i \<noteq> 0} \<le> 2"
    using changed_card [of ?fl] fl by auto
  moreover have "if length ?fl = 2 \<and> ?fl ! 0 = ?fl ! 1
      then rawValues s' child = rawValues s self
      else 1 \<le> card {i. i < CHROMOSOME_COUNT \<and> flipMask ?fl i \<noteq> 0}"
  proof (cases "length ?fl = 2 \<and> ?fl ! 0 = ?fl ! 1")
    case True
    with flips_effect [OF fl rng] have "\<forall>i. flipMask ?fl i = 0" by simp
    with raw lens have "rawValues s' child = rawValues s self"
      by (intro nth_equalityI) simp_all
    with True show ?thesis by simp
  next
    case False
    with flips_effect [OF fl rng] show ?thesis by auto
  qed
  ultimately have "card {i. i < CHROMOSOME_COUNT \<and>
                         rawValues s' child ! i \<noteq> rawValues s self ! i} \<le> 2"
    and "if length ?fl = 2 \<and> ?fl ! 0 = ?fl ! 1
      then rawValues s' child = rawValues s self
      else 1 \<le> card {i. i < CHROMOSOME_COUNT \<and>
                         rawValues s' child ! i \<noteq> rawValues s self ! i}"
    unfolding changed by simp_all
  with child fl rng lens(1) raw show ?thesis
    by (intro exI [of _ child] conjI allI impI) assumption+
qed

text \<open>
  C8. \<open>mutatedCopy\<close> changes no object that existed before the call: the parent's list
  and the raw value of each of its chromosomes are as before. The child has a list of its
  own; where the child's raw value equals the parent's, the child's list holds the
  parent's Chromosome object, and where it differs it holds an object created during the
  call, constructed from the index and the new raw value.
\<close>

theorem mutatedCopy_shares:
  assumes "length (sequences s (chromosomes self)) = CHROMOSOME_COUNT"
    and "\<forall>a \<in> set (sequences s (chromosomes self)). a < allocated s"
    and "chromosomes self < allocated s"
    and "mutatedCopy self g s = (r, g', s')"
  shows "\<exists>child. r = Inr child \<and>
     (\<forall>a < allocated s. objects s' a = objects s a \<and> sequences s' a = sequences s a) \<and>
     sequences s' (chromosomes self) = sequences s (chromosomes self) \<and>
     rawValues s' self = rawValues s self \<and>
     chromosomes child \<noteq> chromosomes self \<and>
     length (sequences s' (chromosomes child)) = CHROMOSOME_COUNT \<and>
     (\<forall>i < CHROMOSOME_COUNT.
        if rawValues s' child ! i = rawValues s self ! i
        then sequences s' (chromosomes child) ! i = sequences s (chromosomes self) ! i
        else allocated s \<le> sequences s' (chromosomes child) ! i \<and>
             objects s' (sequences s' (chromosomes child) ! i) =
               interpretChromosomeValue i (rawValues s' child ! i))"
proof -
  let ?fl = "mutationFlips g"
  from assms(1,2,4) obtain child where child: "r = Inr child"
    and at: "chromosomes child = allocated s"
    and frame: "\<forall>a < allocated s. objects s' a = objects s a \<and> sequences s' a = sequences s a"
    and len: "length (sequences s' (chromosomes child)) = CHROMOSOME_COUNT"
    and vals: "\<And>i. i < CHROMOSOME_COUNT \<Longrightarrow>
        chromosomeValue (objects s' (sequences s' (chromosomes child) ! i)) =
          chromosomeValue (objects s (sequences s (chromosomes self) ! i)) XOR flipMask ?fl i"
    and each: "\<And>i. i < CHROMOSOME_COUNT \<Longrightarrow>
        if flipMask ?fl i \<noteq> 0
        then allocated s < sequences s' (chromosomes child) ! i \<and>
             objects s' (sequences s' (chromosomes child) ! i) =
               interpretChromosomeValue i
                 (chromosomeValue (objects s (sequences s (chromosomes self) ! i))
                    XOR flipMask ?fl i)
        else sequences s' (chromosomes child) ! i = sequences s (chromosomes self) ! i"
    by (rule mutatedCopy_cases) (rule that; assumption)
  from frame assms(3) have same: "sequences s' (chromosomes self) = sequences s (chromosomes self)"
    by simp
  have raws: "rawValues s' self = rawValues s self"
    using frame assms(2) by (simp add: rawValues_def same)
  have "\<forall>i < CHROMOSOME_COUNT.
        if rawValues s' child ! i = rawValues s self ! i
        then sequences s' (chromosomes child) ! i = sequences s (chromosomes self) ! i
        else allocated s \<le> sequences s' (chromosomes child) ! i \<and>
             objects s' (sequences s' (chromosomes child) ! i) =
               interpretChromosomeValue i (rawValues s' child ! i)"
  proof (intro allI impI)
    fix i assume i: "i < CHROMOSOME_COUNT"
    from i len assms(1) have r: "rawValues s' child ! i =
        chromosomeValue (objects s' (sequences s' (chromosomes child) ! i))"
      "rawValues s self ! i = chromosomeValue (objects s (sequences s (chromosomes self) ! i))"
      by (simp_all add: rawValues_def)
    show "if rawValues s' child ! i = rawValues s self ! i
        then sequences s' (chromosomes child) ! i = sequences s (chromosomes self) ! i
        else allocated s \<le> sequences s' (chromosomes child) ! i \<and>
             objects s' (sequences s' (chromosomes child) ! i) =
               interpretChromosomeValue i (rawValues s' child ! i)"
    proof (cases "flipMask ?fl i = 0")
      case True
      with each [OF i] vals [OF i] show ?thesis
        unfolding r by simp
    next
      case False
      with vals [OF i] xor_changes [of "rawValues s self ! i" "flipMask ?fl i"]
      have "rawValues s' child ! i \<noteq> rawValues s self ! i"
        unfolding r by simp
      moreover from False each [OF i] vals [OF i]
      have "allocated s \<le> sequences s' (chromosomes child) ! i"
        "objects s' (sequences s' (chromosomes child) ! i) =
               interpretChromosomeValue i (rawValues s' child ! i)"
        unfolding r by simp_all
      ultimately show ?thesis by simp
    qed
  qed
  moreover from at assms(3) have "chromosomes child \<noteq> chromosomes self"
    by simp
  ultimately show ?thesis
    using child frame same raws len
    by (intro exI [of _ child] conjI) assumption+
qed

section \<open>Mutation of the example genotype\<close>

lemma example_raw: "rawValues exampleStore exampleGenotype = [0x10000, 0x10000, 0x10000, 0x10000]"
  by (simp add: rawValues_def exampleStore_def exampleGenotype_def)

lemma randint_one [simp]: "randint a b oneThenZeroDraws = (a + int (1 mod nat (b - a + 1)), oneThenZeroDraws\<lparr>used := 1\<rparr>)"
  by (simp add: randint_def oneThenZeroDraws_def)

lemma randint_zero_after [simp]:
  "randint a b (oneThenZeroDraws\<lparr>used := Suc n\<rparr>) = (a, oneThenZeroDraws\<lparr>used := Suc (Suc n)\<rparr>)"
  by (simp add: randint_def oneThenZeroDraws_def)

lemma mutate_2: "mutate 2 vals g = mutate (Suc (Suc 0)) vals g"
  by (simp add: numeral_2_eq_2)

lemma flipsDrawn_2: "flipsDrawn 2 g = flipsDrawn (Suc (Suc 0)) g"
  by (simp add: numeral_2_eq_2)

lemma flips_cancelling: "mutationFlips oneThenZeroDraws = [(0, 0), (0, 0)]"
  by (simp add: mutationFlips_def MUTATION_RATE_MAXIMUM_def flipsDrawn_2
      CHROMOSOME_COUNT_def split_beta Let_def)


lemma flips_single: "mutationFlips zeroDraws = [(0, 0)]"
  by (simp add: mutationFlips_def zeroDraws_def randint_def MUTATION_RATE_MAXIMUM_def
      CHROMOSOME_COUNT_def split_beta Let_def)

lemma upt_0_4: "[0..<4] = [0, 1, 2, 3]"
  by (simp add: eval_nat_numeral)

text \<open>
  C3 as stated fails: when the random source makes \<open>mutatedCopy\<close> flip bit 0 of chromosome
  0 twice, the returned genotype has the raw values of its parent, so it differs from it
  in no chromosome.
\<close>

theorem mutatedCopy_cancelling_flips:
  "length (mutationFlips oneThenZeroDraws) = 2 \<and>
   fst (mutatedCopy exampleGenotype oneThenZeroDraws exampleStore) = Inr \<lparr>chromosomes = 5\<rparr> \<and>
   rawValues (snd (snd (mutatedCopy exampleGenotype oneThenZeroDraws exampleStore)))
     \<lparr>chromosomes = 5\<rparr> = rawValues exampleStore exampleGenotype"
  by (simp add: flips_cancelling mutatedCopy_def exampleGenotype_def exampleStore_def
      MUTATION_RATE_MAXIMUM_def upt_0_4 mutate_2 rawValues_def
      Genotype_def newList_def CHROMOSOME_COUNT_def split_beta Let_def)


lemma example_wellformed:
  "length (sequences exampleStore (chromosomes exampleGenotype)) = CHROMOSOME_COUNT"
  "\<forall>a \<in> set (sequences exampleStore (chromosomes exampleGenotype)). a < allocated exampleStore"
  "chromosomes exampleGenotype < allocated exampleStore"
  by (simp_all add: exampleStore_def exampleGenotype_def CHROMOSOME_COUNT_def)

text \<open>
  With a random source of zeros, one flip of bit 0 of chromosome 0: the child's first raw
  value is 0x10001 and its second is the parent's.
\<close>

theorem mutatedCopy_flips_witness:
  "length (sequences exampleStore (chromosomes exampleGenotype)) = CHROMOSOME_COUNT \<and>
   mutationFlips zeroDraws = [(0, 0)] \<and>
   (\<exists>child. fst (mutatedCopy exampleGenotype zeroDraws exampleStore) = Inr child \<and>
      rawValues (snd (snd (mutatedCopy exampleGenotype zeroDraws exampleStore))) child ! 0
        = 0x10001 \<and>
      rawValues (snd (snd (mutatedCopy exampleGenotype zeroDraws exampleStore))) child ! 1
        = 0x10000)"
proof -
  let ?m = "mutatedCopy exampleGenotype zeroDraws exampleStore"
  have m: "?m = (fst ?m, fst (snd ?m), snd (snd ?m))" by simp
  from mutatedCopy_flips [OF example_wellformed(1,2) m]
  obtain child where "fst ?m = Inr child"
    and "\<forall>i < CHROMOSOME_COUNT. rawValues (snd (snd ?m)) child ! i =
           rawValues exampleStore exampleGenotype ! i XOR flipMask (mutationFlips zeroDraws) i"
    by blast
  then have "fst ?m = Inr child"
    "rawValues (snd (snd ?m)) child ! 0 = 0x10001"
    "rawValues (snd (snd ?m)) child ! 1 = 0x10000"
    by (simp_all add: CHROMOSOME_COUNT_def flips_single example_raw)
  with example_wellformed(1) flips_single show ?thesis by blast
qed

text \<open>The example genotype after a mutated copy was made of it.\<close>

theorem mutatedCopy_shares_witness:
  "length (sequences exampleStore (chromosomes exampleGenotype)) = CHROMOSOME_COUNT \<and>
   chromosomes exampleGenotype < allocated exampleStore \<and>
   sequences (snd (snd (mutatedCopy exampleGenotype zeroDraws exampleStore)))
     (chromosomes exampleGenotype) = [0, 1, 2, 3] \<and>
   rawValues (snd (snd (mutatedCopy exampleGenotype zeroDraws exampleStore))) exampleGenotype
     = [0x10000, 0x10000, 0x10000, 0x10000]"
proof -
  let ?m = "mutatedCopy exampleGenotype zeroDraws exampleStore"
  have m: "?m = (fst ?m, fst (snd ?m), snd (snd ?m))" by simp
  from mutatedCopy_shares [OF example_wellformed m]
  have "sequences (snd (snd ?m)) (chromosomes exampleGenotype) =
          sequences exampleStore (chromosomes exampleGenotype)"
    and "rawValues (snd (snd ?m)) exampleGenotype = rawValues exampleStore exampleGenotype"
    by blast+
  then have "sequences (snd (snd ?m)) (chromosomes exampleGenotype) = [0, 1, 2, 3]"
    and "rawValues (snd (snd ?m)) exampleGenotype = [0x10000, 0x10000, 0x10000, 0x10000]"
    by (simp_all add: example_raw) (simp add: exampleStore_def)
  with example_wellformed(1,3) show ?thesis by simp
qed

section \<open>The two phases of display\<close>

lemma item_nth [simp]: "i < length xs \<Longrightarrow> item xs i = Inr (xs ! i)"
  by (simp add: item_def)

lemma straightBranches_quiet:
  "\<not> t_down pen \<Longrightarrow>
   t_drawn (snd (straightBranches geo n len ch pen)) = t_drawn pen \<and>
   \<not> t_down (snd (straightBranches geo n len ch pen))"
  by (induction n arbitrary: pen) (simp_all add: split_beta Let_def)

lemma angledBranches_quiet:
  "\<not> t_down pen \<Longrightarrow>
   t_drawn (snd (angledBranches geo n a ch pen)) = t_drawn pen \<and>
   \<not> t_down (snd (angledBranches geo n a ch pen))"
  by (induction n arbitrary: pen) (simp_all add: split_beta Let_def)

lemma childSegmentPositions_quiet:
  "t_drawn (snd (childSegmentPositions geo c prior pen)) = t_drawn pen \<and>
   \<not> t_down (snd (childSegmentPositions geo c prior pen))"
  by (simp add: childSegmentPositions_def Let_def split_beta straightBranches_quiet
      angledBranches_quiet)

lemma segmentOutOfBounds_quiet:
  "t_drawn (snd (segmentOutOfBounds geo c (Some panel) (Some p) pen)) = t_drawn pen"
  by (simp add: segmentOutOfBounds_def Let_def split_beta)

lemma segmentOutOfBounds_answer:
  "fst (segmentOutOfBounds geo c (Some panel) (Some p) pen) = outOfBounds geo c panel p"
  by (simp add: outOfBounds_def segmentOutOfBounds_def Let_def split_beta)


lemma scanSegments_Inl:
  assumes "scanSegments geo chroms panel k ps segs pen = Inl (stopped, pen')"
    and "k < length chroms"
    and "k < CHROMOSOME_COUNT - 1 \<longrightarrow> k + 1 < length chroms"
  shows "t_drawn pen' = t_drawn pen \<and>
         (\<exists>p \<in> set ps. stopped = OutOfBounds k p \<and> outOfBounds geo (chroms ! k) panel p)"
  using assms
proof (induction ps arbitrary: segs pen)
  case Nil
  then show ?case by simp
next
  case (Cons p ps)
  let ?t = "segmentOutOfBounds geo (chroms ! k) (Some panel) (Some p) pen"
  have d: "t_drawn (snd ?t) = t_drawn pen" by (rule segmentOutOfBounds_quiet)
  have a: "fst ?t = outOfBounds geo (chroms ! k) panel p" by (rule segmentOutOfBounds_answer)
  show ?case
  proof (cases "fst ?t")
    case True
    with Cons.prems d a show ?thesis
      by (auto simp add: split_beta)
  next
    case False
    let ?e = "PenPosition (snd ?t) (chiralityRight p)"
    show ?thesis
    proof (cases "k < CHROMOSOME_COUNT - 1")
      case True
      let ?c = "childSegmentPositions geo (chroms ! (k + 1)) ?e (snd ?t)"
      from True False Cons.prems
      have r: "scanSegments geo chroms panel k ps (segs[k + 1 := segs ! (k + 1) @ fst ?c]) (snd ?c)
                 = Inl (stopped, pen')"
        by (simp add: split_beta Let_def)
      from Cons.IH [OF r] Cons.prems(2,3)
      have "t_drawn pen' = t_drawn (snd ?c)"
        "\<exists>q \<in> set ps. stopped = OutOfBounds k q \<and> outOfBounds geo (chroms ! k) panel q"
        by simp_all
      with d childSegmentPositions_quiet [of geo "chroms ! (k + 1)" ?e "snd ?t"]
      show ?thesis by auto
    next
      case nl: False
      from nl False Cons.prems
      have r: "scanSegments geo chroms panel k ps segs (snd ?t) = Inl (stopped, pen')"
        by (simp add: split_beta Let_def)
      from Cons.IH [OF r] Cons.prems(2,3)
      have "t_drawn pen' = t_drawn (snd ?t)"
        "\<exists>q \<in> set ps. stopped = OutOfBounds k q \<and> outOfBounds geo (chroms ! k) panel q"
        by simp_all
      with d show ?thesis by auto
    qed
  qed
qed

lemma scanSegments_Inr:
  assumes "scanSegments geo chroms panel k ps segs pen = Inr (segs', pen')"
    and "k < length chroms"
    and "k < CHROMOSOME_COUNT - 1 \<longrightarrow> k + 1 < length chroms"
  shows "t_drawn pen' = t_drawn pen \<and> length segs' = length segs \<and>
         (\<forall>j. j \<noteq> k + 1 \<longrightarrow> segs' ! j = segs ! j) \<and>
         (\<forall>p \<in> set ps. \<not> outOfBounds geo (chroms ! k) panel p) \<and>
         (k < CHROMOSOME_COUNT - 1 \<and> terminated (chroms ! (k + 1)) \<longrightarrow> segs' = segs) \<and>
         (\<not> k < CHROMOSOME_COUNT - 1 \<longrightarrow> segs' = segs)"
  using assms
proof (induction ps arbitrary: segs pen)
  case Nil
  then show ?case by simp
next
  case (Cons p ps)
  let ?t = "segmentOutOfBounds geo (chroms ! k) (Some panel) (Some p) pen"
  have d: "t_drawn (snd ?t) = t_drawn pen" by (rule segmentOutOfBounds_quiet)
  have a: "fst ?t = outOfBounds geo (chroms ! k) panel p" by (rule segmentOutOfBounds_answer)
  from Cons.prems have False: "\<not> fst ?t"
    by (auto simp add: split_beta split: if_splits)
  let ?e = "PenPosition (snd ?t) (chiralityRight p)"
  show ?case
  proof (cases "k < CHROMOSOME_COUNT - 1")
    case True
    let ?c = "childSegmentPositions geo (chroms ! (k + 1)) ?e (snd ?t)"
    let ?segs1 = "segs[k + 1 := segs ! (k + 1) @ fst ?c]"
    from True False Cons.prems
    have r: "scanSegments geo chroms panel k ps ?segs1 (snd ?c) = Inr (segs', pen')"
      by (simp add: split_beta Let_def)
    note ih = Cons.IH [OF r Cons.prems(2,3)]
    have t: "terminated (chroms ! (k + 1)) \<Longrightarrow> ?segs1 = segs"
      by (simp add: childSegmentPositions_terminated)
    from ih d a False childSegmentPositions_quiet [of geo "chroms ! (k + 1)" ?e "snd ?t"] True t
    show ?thesis by auto
  next
    case nl: False
    from nl False Cons.prems
    have r: "scanSegments geo chroms panel k ps segs (snd ?t) = Inr (segs', pen')"
      by (simp add: split_beta Let_def)
    note ih = Cons.IH [OF r Cons.prems(2,3)]
    from ih d a False nl show ?thesis by auto
  qed
qed

lemma scanSegments_grows:
  assumes "scanSegments geo chroms panel k ps segs pen = Inr (segs', pen')"
    and "k < length chroms" and "k + 1 < length chroms" and "k < CHROMOSOME_COUNT - 1"
    and "k + 1 < length segs"
    and "\<And>prior pen0. length (fst (childSegmentPositions geo (chroms ! (k + 1)) prior pen0)) = m"
  shows "length (segs' ! (k + 1)) = length (segs ! (k + 1)) + m * length ps"
  using assms(1,5)
proof (induction ps arbitrary: segs pen)
  case Nil
  then show ?case by simp
next
  case (Cons p ps)
  let ?t = "segmentOutOfBounds geo (chroms ! k) (Some panel) (Some p) pen"
  from Cons.prems assms(2) have False: "\<not> fst ?t"
    by (auto simp add: split_beta split: if_splits)
  let ?e = "PenPosition (snd ?t) (chiralityRight p)"
  let ?c = "childSegmentPositions geo (chroms ! (k + 1)) ?e (snd ?t)"
  let ?segs1 = "segs[k + 1 := segs ! (k + 1) @ fst ?c]"
  from False Cons.prems assms(2,3,4)
  have r: "scanSegments geo chroms panel k ps ?segs1 (snd ?c) = Inr (segs', pen')"
    by (simp add: split_beta Let_def)
  from Cons.IH [OF r] Cons.prems(2) assms(6) [of ?e "snd ?t"]
  show ?case by simp
qed

lemma growGenerations_step:
  "k < CHROMOSOME_COUNT \<Longrightarrow>
   growGenerations geo chroms panel [k..<CHROMOSOME_COUNT] segs pen =
     (if length (segs ! k) > MAX_CHROMOSOME_SEGMENTS then Inl (TooManySegments k, pen)
      else if length (segs ! k) = 0 then
        (if k = 0 then Inl (NoSegments, pen) else Inr (segs, pen))
      else
        (case scanSegments geo chroms panel k (segs ! k) segs pen of
           Inl stopped \<Rightarrow> Inl stopped
         | Inr (segs1, pen1) \<Rightarrow>
             growGenerations geo chroms panel [Suc k..<CHROMOSOME_COUNT] segs1 pen1))"
  by (simp add: upt_conv_Cons Let_def)

lemma growGenerations_done:
  "\<not> k < CHROMOSOME_COUNT \<Longrightarrow>
   growGenerations geo chroms panel [k..<CHROMOSOME_COUNT] segs pen = Inr (segs, pen)"
  by simp

lemma growGenerations_Inl:
  assumes "growGenerations geo chroms panel [k..<CHROMOSOME_COUNT] segs pen = Inl (stopped, pen')"
    and "length chroms = CHROMOSOME_COUNT"
  shows "t_drawn pen' = t_drawn pen \<and>
         (stopped = NoSegments \<or> (\<exists>j. stopped = TooManySegments j) \<or>
          (\<exists>j p. stopped = OutOfBounds j p \<and> outOfBounds geo (chroms ! j) panel p))"
  using assms(1)
proof (induction "CHROMOSOME_COUNT - k" arbitrary: k segs pen)
  case 0
  then show ?case by simp
next
  case (Suc n)
  then have k: "k < CHROMOSOME_COUNT" by simp
  then have kc: "k < length chroms" "k < CHROMOSOME_COUNT - 1 \<longrightarrow> k + 1 < length chroms"
    using assms(2) by auto
  show ?case
  proof (cases "scanSegments geo chroms panel k (segs ! k) segs pen")
    case (Inl a)
    obtain st pn where a: "a = (st, pn)" by (cases a)
    from scanSegments_Inl [OF Inl [unfolded a] kc]
    have "t_drawn pn = t_drawn pen"
      "\<exists>p. st = OutOfBounds k p \<and> outOfBounds geo (chroms ! k) panel p"
      by auto
    with Suc.prems Inl a show ?thesis
      by (auto simp add: growGenerations_step [OF k] split: if_splits)
  next
    case (Inr b)
    obtain segs1 pen1 where b: "b = (segs1, pen1)" by (cases b)
    from scanSegments_Inr [OF Inr [unfolded b] kc]
    have d: "t_drawn pen1 = t_drawn pen" by simp
    show ?thesis
    proof (cases "length (segs ! k) > MAX_CHROMOSOME_SEGMENTS \<or> length (segs ! k) = 0")
      case True
      with Suc.prems show ?thesis
        by (auto simp add: growGenerations_step [OF k] split: if_splits)
    next
      case False
      with Suc.prems Inr b
      have r: "growGenerations geo chroms panel [Suc k..<CHROMOSOME_COUNT] segs1 pen1
                 = Inl (stopped, pen')"
        by (simp add: growGenerations_step [OF k])
      from Suc.hyps(2) have "n = CHROMOSOME_COUNT - Suc k" by simp
      from Suc.hyps(1) [OF this r] d show ?thesis by simp
    qed
  qed
qed

lemma growGenerations_Inr:
  assumes "growGenerations geo chroms panel [k..<CHROMOSOME_COUNT] segs pen = Inr (segs', pen')"
    and "length chroms = CHROMOSOME_COUNT"
    and "\<forall>j. k < j \<and> j < CHROMOSOME_COUNT \<longrightarrow> segs ! j = []"
  shows "t_drawn pen' = t_drawn pen \<and> length segs' = length segs \<and>
         (\<forall>j < k. segs' ! j = segs ! j) \<and>
         (\<forall>j. k \<le> j \<and> j < CHROMOSOME_COUNT \<longrightarrow>
            length (segs' ! j) \<le> MAX_CHROMOSOME_SEGMENTS \<and>
            (\<forall>p \<in> set (segs' ! j). \<not> outOfBounds geo (chroms ! j) panel p)) \<and>
         (\<forall>j i. k \<le> j \<and> j \<le> i \<and> i < CHROMOSOME_COUNT \<and> segs' ! j = [] \<longrightarrow> segs' ! i = []) \<and>
         (k = 0 \<longrightarrow> segs' ! 0 \<noteq> [])"
  using assms(1,3)
proof (induction "CHROMOSOME_COUNT - k" arbitrary: k segs pen)
  case 0
  then show ?case by (simp add: CHROMOSOME_COUNT_def)
next
  case (Suc n)
  then have k: "k < CHROMOSOME_COUNT" by simp
  then have kc: "k < length chroms" "k < CHROMOSOME_COUNT - 1 \<longrightarrow> k + 1 < length chroms"
    using assms(2) by auto
  from Suc.prems(1) have small: "\<not> length (segs ! k) > MAX_CHROMOSOME_SEGMENTS"
    by (auto simp add: growGenerations_step [OF k] split: if_splits)
  show ?case
  proof (cases "length (segs ! k) = 0")
    case True
    with Suc.prems(1) small have e: "k \<noteq> 0" "segs' = segs" "pen' = pen"
      by (auto simp add: growGenerations_step [OF k] split: if_splits)
    have "segs ! i = []" if "k \<le> i" "i < CHROMOSOME_COUNT" for i
      using that True Suc.prems(2) by (cases "i = k") auto
    with e show ?thesis by simp
  next
    case False
    with Suc.prems(1) small obtain segs1 pen1
      where s: "scanSegments geo chroms panel k (segs ! k) segs pen = Inr (segs1, pen1)"
        and r: "growGenerations geo chroms panel [Suc k..<CHROMOSOME_COUNT] segs1 pen1
                  = Inr (segs', pen')"
      by (auto simp add: growGenerations_step [OF k] split: sum.splits)
    from scanSegments_Inr [OF s kc]
    have sc: "t_drawn pen1 = t_drawn pen" "length segs1 = length segs"
      "\<forall>j. j \<noteq> k + 1 \<longrightarrow> segs1 ! j = segs ! j"
      "\<forall>p \<in> set (segs ! k). \<not> outOfBounds geo (chroms ! k) panel p"
      by simp_all
    have pre: "\<forall>j. Suc k < j \<and> j < CHROMOSOME_COUNT \<longrightarrow> segs1 ! j = []"
      using sc(3) Suc.prems(2) by simp
    from Suc.hyps(2) have "n = CHROMOSOME_COUNT - Suc k" by simp
    from Suc.hyps(1) [OF this r pre]
    have ih: "t_drawn pen' = t_drawn pen1" "length segs' = length segs1"
      "\<forall>j < Suc k. segs' ! j = segs1 ! j"
      "\<forall>j. Suc k \<le> j \<and> j < CHROMOSOME_COUNT \<longrightarrow>
            length (segs' ! j) \<le> MAX_CHROMOSOME_SEGMENTS \<and>
            (\<forall>p \<in> set (segs' ! j). \<not> outOfBounds geo (chroms ! j) panel p)"
      "\<forall>j i. Suc k \<le> j \<and> j \<le> i \<and> i < CHROMOSOME_COUNT \<and> segs' ! j = [] \<longrightarrow> segs' ! i = []"
      by blast+
    have at_k: "segs' ! k = segs ! k"
      using ih(3) sc(3) by simp
    have below: "\<forall>j < k. segs' ! j = segs ! j"
      using ih(3) sc(3) by simp
    have each: "length (segs' ! j) \<le> MAX_CHROMOSOME_SEGMENTS \<and>
            (\<forall>p \<in> set (segs' ! j). \<not> outOfBounds geo (chroms ! j) panel p)"
      if "k \<le> j" "j < CHROMOSOME_COUNT" for j
    proof (cases "j = k")
      case True
      with at_k small sc(4) show ?thesis by simp
    next
      case False
      with that ih(4) show ?thesis by simp
    qed
    have empties: "segs' ! i = []"
      if "k \<le> j" "j \<le> i" "i < CHROMOSOME_COUNT" "segs' ! j = []" for j i
    proof (cases "j = k")
      case True
      with at_k that(4) \<open>length (segs ! k) \<noteq> 0\<close> show ?thesis by simp
    next
      case False
      with that have "Suc k \<le> j \<and> j \<le> i \<and> i < CHROMOSOME_COUNT \<and> segs' ! j = []"
        by simp
      with ih(5) show ?thesis by blast
    qed
    from at_k False have first: "k = 0 \<longrightarrow> segs' ! 0 \<noteq> []" by auto
    have c1: "t_drawn pen' = t_drawn pen" using ih(1) sc(1) by simp
    have c2: "length segs' = length segs" using ih(2) sc(2) by simp
    have c4: "\<forall>j. k \<le> j \<and> j < CHROMOSOME_COUNT \<longrightarrow>
            length (segs' ! j) \<le> MAX_CHROMOSOME_SEGMENTS \<and>
            (\<forall>p \<in> set (segs' ! j). \<not> outOfBounds geo (chroms ! j) panel p)"
      using each by blast
    have c5: "\<forall>j i. k \<le> j \<and> j \<le> i \<and> i < CHROMOSOME_COUNT \<and> segs' ! j = [] \<longrightarrow>
            segs' ! i = []"
      using empties by blast
    from c1 c2 below c4 c5 first show ?thesis
      by (intro conjI) assumption+
  qed
qed

lemma scanSegments_passes:
  assumes "\<forall>p \<in> set ps. \<not> outOfBounds geo (chroms ! k) panel p"
    and "k < length chroms"
    and "k < CHROMOSOME_COUNT - 1 \<longrightarrow> k + 1 < length chroms"
  shows "\<exists>segs' pen'. scanSegments geo chroms panel k ps segs pen = Inr (segs', pen')"
proof (cases "scanSegments geo chroms panel k ps segs pen")
  case (Inl a)
  obtain st pn where "a = (st, pn)" by (cases a)
  with Inl scanSegments_Inl [OF _ assms(2,3), of geo panel ps segs pen st pn] assms(1)
  show ?thesis by auto
next
  case (Inr b)
  then show ?thesis by (cases b) simp
qed

lemma scanSegments_fails:
  assumes "\<exists>p \<in> set ps. outOfBounds geo (chroms ! k) panel p"
    and "k < length chroms"
    and "k < CHROMOSOME_COUNT - 1 \<longrightarrow> k + 1 < length chroms"
  shows "\<exists>q pen'. scanSegments geo chroms panel k ps segs pen = Inl (OutOfBounds k q, pen')"
proof (cases "scanSegments geo chroms panel k ps segs pen")
  case (Inl a)
  obtain st pn where "a = (st, pn)" by (cases a)
  with Inl scanSegments_Inl [OF _ assms(2,3), of geo panel ps segs pen st pn]
  show ?thesis by auto
next
  case (Inr b)
  obtain segs' pen' where "b = (segs', pen')" by (cases b)
  with Inr scanSegments_Inr [OF _ assms(2,3), of geo panel ps segs pen segs' pen'] assms(1)
  show ?thesis by auto
qed

lemma validation_unfold:
  "length chroms = CHROMOSOME_COUNT \<Longrightarrow>
   validation geo chroms panel pen =
     growGenerations geo chroms panel [0..<CHROMOSOME_COUNT]
       ((replicate CHROMOSOME_COUNT [])
          [0 := fst (childSegmentPositions geo (chroms ! 0) (startingPenPosition panel) pen)])
       (snd (childSegmentPositions geo (chroms ! 0) (startingPenPosition panel) pen))"
  by (simp add: validation_def Let_def split_beta CHROMOSOME_COUNT_def)

lemma validation_Inl:
  assumes "validation geo chroms panel pen = Inl (stopped, pen')"
    and "length chroms = CHROMOSOME_COUNT"
  shows "t_drawn pen' = t_drawn pen \<and>
         (stopped = NoSegments \<or> (\<exists>j. stopped = TooManySegments j) \<or>
          (\<exists>j p. stopped = OutOfBounds j p \<and> outOfBounds geo (chroms ! j) panel p))"
  using growGenerations_Inl [OF assms(1) [unfolded validation_unfold [OF assms(2)]] assms(2)]
    childSegmentPositions_quiet [of geo "chroms ! 0" "startingPenPosition panel" pen]
  by simp

lemma validation_Inr:
  assumes "validation geo chroms panel pen = Inr (segs, pen')"
    and "length chroms = CHROMOSOME_COUNT"
  shows "t_drawn pen' = t_drawn pen \<and> length segs = CHROMOSOME_COUNT \<and> segs ! 0 \<noteq> [] \<and>
         (\<forall>j < CHROMOSOME_COUNT.
            length (segs ! j) \<le> MAX_CHROMOSOME_SEGMENTS \<and>
            (\<forall>p \<in> set (segs ! j). \<not> outOfBounds geo (chroms ! j) panel p)) \<and>
         (\<forall>j i. j \<le> i \<and> i < CHROMOSOME_COUNT \<and> segs ! j = [] \<longrightarrow> segs ! i = [])"
proof -
  let ?c = "childSegmentPositions geo (chroms ! 0) (startingPenPosition panel) pen"
  let ?segs0 = "(replicate CHROMOSOME_COUNT []) [0 := fst ?c]"
  have pre: "\<forall>j. 0 < j \<and> j < CHROMOSOME_COUNT \<longrightarrow> ?segs0 ! j = []"
    by simp
  note g = growGenerations_Inr
    [OF assms(1) [unfolded validation_unfold [OF assms(2)]] assms(2) pre]
  note q = childSegmentPositions_quiet [of geo "chroms ! 0" "startingPenPosition panel" pen]
  have "t_drawn pen' = t_drawn pen" using g q by simp
  moreover have "length segs = CHROMOSOME_COUNT" using g by simp
  moreover have "segs ! 0 \<noteq> []" using g by blast
  moreover have "\<forall>j < CHROMOSOME_COUNT.
            length (segs ! j) \<le> MAX_CHROMOSOME_SEGMENTS \<and>
            (\<forall>p \<in> set (segs ! j). \<not> outOfBounds geo (chroms ! j) panel p)"
    using g by simp
  moreover have "\<forall>j i. j \<le> i \<and> i < CHROMOSOME_COUNT \<and> segs ! j = [] \<longrightarrow> segs ! i = []"
    using g by blast
  ultimately show ?thesis by (intro conjI) assumption+
qed

lemma drawSegments_ok:
  "k < length chroms \<Longrightarrow> \<exists>pen'. drawSegments geo chroms panel k ps pen = Inr pen'"
  by (induction ps arbitrary: pen) simp_all

lemma drawGenerations_ok:
  "\<forall>k \<in> set ks. k < length chroms \<Longrightarrow>
   \<exists>pen'. drawGenerations geo chroms panel ks segs pen = Inr pen'"
proof (induction ks arbitrary: pen)
  case Nil
  then show ?case by simp
next
  case (Cons k ks)
  then obtain pen1 where "drawSegments geo chroms panel k (segs ! k) pen = Inr pen1"
    using drawSegments_ok [of k chroms geo panel "segs ! k" pen] by auto
  with Cons show ?case by simp
qed

lemma drawGenerations_append:
  "drawGenerations geo chroms panel (xs @ ys) segs pen =
     (case drawGenerations geo chroms panel xs segs pen of
        Inl raised \<Rightarrow> Inl raised
      | Inr pen1 \<Rightarrow> drawGenerations geo chroms panel ys segs pen1)"
  by (induction xs arbitrary: pen) (simp_all split: sum.splits)

lemma drawGenerations_empty:
  "\<forall>k \<in> set ks. segs ! k = [] \<Longrightarrow> drawGenerations geo chroms panel ks segs pen = Inr pen"
  by (induction ks) simp_all

lemma drawGenerations_prefix:
  assumes "k \<le> CHROMOSOME_COUNT"
    and "\<forall>j. k \<le> j \<and> j < CHROMOSOME_COUNT \<longrightarrow> segs ! j = []"
    and "drawGenerations geo chroms panel [0..<k] segs pen = Inr pen'"
  shows "drawGenerations geo chroms panel [0..<CHROMOSOME_COUNT] segs pen = Inr pen'"
proof -
  from assms(1) have "[0..<CHROMOSOME_COUNT] = [0..<k] @ [k..<CHROMOSOME_COUNT]"
    by (metis le_add_diff_inverse upt_add_eq_append zero_le)
  moreover from assms(2)
  have "drawGenerations geo chroms panel [k..<CHROMOSOME_COUNT] segs pen' = Inr pen'"
    by (intro drawGenerations_empty) simp
  ultimately show ?thesis
    using assms(3) by (simp add: drawGenerations_append)
qed

lemma display_Inl:
  assumes "validation geo (chromosomesOf s self) panel pen = Inl (stopped, pen')"
    and "\<forall>e. stopped \<noteq> Raised e"
  shows "display geo s self panel pen = (Inr False, pen')"
  using assms by (cases stopped) (simp_all add: display_def)

lemma display_Inr:
  assumes "validation geo (chromosomesOf s self) panel pen = Inr (segs, pen1)"
    and "drawGenerations geo (chromosomesOf s self) panel [0..<CHROMOSOME_COUNT] segs pen1
           = Inr pen2"
  shows "display geo s self panel pen = (Inr True, pen2)"
  using assms by (simp add: display_def)

lemma display_cases:
  assumes "length (chromosomesOf s self) = CHROMOSOME_COUNT"
  obtains (failed) stopped pen1
    where "validation geo (chromosomesOf s self) panel pen = Inl (stopped, pen1)"
      and "display geo s self panel pen = (Inr False, pen1)"
      and "t_drawn pen1 = t_drawn pen"
  | (drawn) segs pen1 pen2
    where "validation geo (chromosomesOf s self) panel pen = Inr (segs, pen1)"
      and "drawGenerations geo (chromosomesOf s self) panel [0..<CHROMOSOME_COUNT] segs pen1
             = Inr pen2"
      and "display geo s self panel pen = (Inr True, pen2)"
proof (cases "validation geo (chromosomesOf s self) panel pen")
  case (Inl a)
  obtain st pn where a: "a = (st, pn)" by (cases a)
  from validation_Inl [OF Inl [unfolded a] assms]
  have "t_drawn pn = t_drawn pen" "\<forall>e. st \<noteq> Raised e" by auto
  with display_Inl [OF Inl [unfolded a]] Inl a failed show ?thesis by blast
next
  case (Inr b)
  obtain segs pen1 where b: "b = (segs, pen1)" by (cases b)
  from assms obtain pen2
    where d: "drawGenerations geo (chromosomesOf s self) panel [0..<CHROMOSOME_COUNT] segs pen1
           = Inr pen2"
    using drawGenerations_ok [of "[0..<CHROMOSOME_COUNT]" "chromosomesOf s self" geo panel segs pen1]
    by auto
  from display_Inr [OF Inr [unfolded b] d] Inr b d drawn show ?thesis by blast
qed

text \<open>
  C1. For a creature with four chromosomes: a pending list that holds a segment failing
  the bounds test makes the scan of it stop as out of bounds; when the first phase stops
  as out of bounds, at a segment that fails the test, \<open>display\<close> returns False with no
  mark added to what the pen had drawn; when the first phase ends normally nothing has
  been drawn yet, and every segment of every chromosome it hands to the second phase has
  passed the test. Whenever \<open>display\<close> does not return True it returns False and has
  drawn nothing.
\<close>

theorem display_validates_first:
  assumes "length (chromosomesOf s self) = CHROMOSOME_COUNT"
  shows "(\<forall>k ps segs0 pen0.
            k < CHROMOSOME_COUNT \<and>
            (\<exists>p \<in> set ps. outOfBounds geo (chromosomesOf s self ! k) panel p) \<longrightarrow>
            (\<exists>q pen1. scanSegments geo (chromosomesOf s self) panel k ps segs0 pen0
                         = Inl (OutOfBounds k q, pen1))) \<and>
         (\<forall>k p pen1.
            validation geo (chromosomesOf s self) panel pen = Inl (OutOfBounds k p, pen1) \<longrightarrow>
            outOfBounds geo (chromosomesOf s self ! k) panel p \<and>
            display geo s self panel pen = (Inr False, pen1) \<and>
            t_drawn pen1 = t_drawn pen) \<and>
         (\<forall>segs pen1.
            validation geo (chromosomesOf s self) panel pen = Inr (segs, pen1) \<longrightarrow>
            t_drawn pen1 = t_drawn pen \<and>
            (\<forall>k < CHROMOSOME_COUNT. \<forall>p \<in> set (segs ! k).
               \<not> outOfBounds geo (chromosomesOf s self ! k) panel p)) \<and>
         (fst (display geo s self panel pen) \<noteq> Inr True \<longrightarrow>
            fst (display geo s self panel pen) = Inr False \<and>
            t_drawn (snd (display geo s self panel pen)) = t_drawn pen)"
proof (intro conjI allI impI)
  fix k ps segs0 pen0
  assume a: "k < CHROMOSOME_COUNT \<and>
             (\<exists>p \<in> set ps. outOfBounds geo (chromosomesOf s self ! k) panel p)"
  then have "k < length (chromosomesOf s self)"
    "k < CHROMOSOME_COUNT - 1 \<longrightarrow> k + 1 < length (chromosomesOf s self)"
    using assms by auto
  with a show "\<exists>q pen1. scanSegments geo (chromosomesOf s self) panel k ps segs0 pen0
                         = Inl (OutOfBounds k q, pen1)"
    by (intro scanSegments_fails) simp_all
next
  fix k p pen1
  assume v: "validation geo (chromosomesOf s self) panel pen = Inl (OutOfBounds k p, pen1)"
  from validation_Inl [OF v assms]
  show "outOfBounds geo (chromosomesOf s self ! k) panel p" by simp
  from validation_Inl [OF v assms]
  show "t_drawn pen1 = t_drawn pen" by simp
  from display_Inl [OF v]
  show "display geo s self panel pen = (Inr False, pen1)" by simp
next
  fix segs pen1
  assume v: "validation geo (chromosomesOf s self) panel pen = Inr (segs, pen1)"
  from validation_Inr [OF v assms]
  show "t_drawn pen1 = t_drawn pen" by simp
  fix k
  assume "k < CHROMOSOME_COUNT"
  with validation_Inr [OF v assms]
  show "\<forall>p \<in> set (segs ! k). \<not> outOfBounds geo (chromosomesOf s self ! k) panel p"
    by simp
next
  assume n: "fst (display geo s self panel pen) \<noteq> Inr True"
  from assms show "fst (display geo s self panel pen) = Inr False"
    using n by (cases rule: display_cases [of s self geo panel pen]) simp_all
  from assms show "t_drawn (snd (display geo s self panel pen)) = t_drawn pen"
    using n by (cases rule: display_cases [of s self geo panel pen]) simp_all
qed

text \<open>
  C4. For a creature with four chromosomes: the first loop, arriving at a chromosome
  with more than 32 pending positions, stops on the count before any bounds test of that
  chromosome; a first phase stopped this way makes \<open>display\<close> return False; and when
  \<open>display\<close> returns True, no chromosome had more than 32 positions.
\<close>

theorem too_many_segments_fail:
  fixes geo :: "'h compass"
  assumes "length (chromosomesOf s self) = CHROMOSOME_COUNT"
  shows "(\<forall>k ks segs0 pen0.
            MAX_CHROMOSOME_SEGMENTS < length (segs0 ! k) \<longrightarrow>
            growGenerations geo (chromosomesOf s self) panel (k # ks) segs0 pen0
              = Inl (TooManySegments k, pen0)) \<and>
         (\<forall>k pen1.
            validation geo (chromosomesOf s self) panel pen = Inl (TooManySegments k, pen1) \<longrightarrow>
            display geo s self panel pen = (Inr False, pen1)) \<and>
         (fst (display geo s self panel pen) = Inr True \<longrightarrow>
            (\<exists>segs pen1.
               validation geo (chromosomesOf s self) panel pen = Inr (segs, pen1) \<and>
               (\<forall>k < CHROMOSOME_COUNT. length (segs ! k) \<le> MAX_CHROMOSOME_SEGMENTS)))"
proof (intro conjI allI impI)
  fix k ks and segs0 :: "'h penPosition list list" and pen0 :: "'h turtle"
  assume "MAX_CHROMOSOME_SEGMENTS < length (segs0 ! k)"
  then show "growGenerations geo (chromosomesOf s self) panel (k # ks) segs0 pen0
              = Inl (TooManySegments k, pen0)"
    by simp
next
  fix k pen1
  assume v: "validation geo (chromosomesOf s self) panel pen = Inl (TooManySegments k, pen1)"
  from display_Inl [OF v]
  show "display geo s self panel pen = (Inr False, pen1)" by simp
next
  assume t: "fst (display geo s self panel pen) = Inr True"
  from assms show "\<exists>segs pen1.
               validation geo (chromosomesOf s self) panel pen = Inr (segs, pen1) \<and>
               (\<forall>k < CHROMOSOME_COUNT. length (segs ! k) \<le> MAX_CHROMOSOME_SEGMENTS)"
  proof (cases rule: display_cases [of s self geo panel pen])
    case (failed stopped pen1)
    with t show ?thesis by simp
  next
    case (drawn segs pen1 pen2)
    from validation_Inr [OF drawn(1) assms] drawn(1) show ?thesis by simp
  qed
qed

lemma validation_first_empty:
  assumes "length chroms = CHROMOSOME_COUNT"
    and "fst (childSegmentPositions geo (chroms ! 0) (startingPenPosition panel) pen) = []"
  shows "validation geo chroms panel pen =
           Inl (NoSegments, snd (childSegmentPositions geo (chroms ! 0)
                                   (startingPenPosition panel) pen))"
  using assms(2)
  by (simp add: validation_unfold [OF assms(1)] upt_conv_Cons CHROMOSOME_COUNT_def
      MAX_CHROMOSOME_SEGMENTS_def)

lemma validation_second_terminated:
  assumes len: "length chroms = CHROMOSOME_COUNT"
    and t: "terminated (chroms ! 1)"
    and ne: "kids \<noteq> []"
    and small: "length kids \<le> MAX_CHROMOSOME_SEGMENTS"
    and pass: "\<forall>p \<in> set kids. \<not> outOfBounds geo (chroms ! 0) panel p"
    and kids: "kids = fst (childSegmentPositions geo (chroms ! 0) (startingPenPosition panel) pen)"
  shows "\<exists>pen1. validation geo chroms panel pen =
           Inr ((replicate CHROMOSOME_COUNT []) [0 := kids], pen1)"
proof -
  let ?c = "childSegmentPositions geo (chroms ! 0) (startingPenPosition panel) pen"
  let ?segs0 = "(replicate CHROMOSOME_COUNT []) [0 := kids]"
  have s0: "?segs0 ! 0 = kids" "?segs0 ! 1 = []"
    by (simp_all add: CHROMOSOME_COUNT_def)
  have kc: "0 < length chroms" "0 < CHROMOSOME_COUNT - 1 \<longrightarrow> 0 + 1 < length chroms"
    using len by (simp_all add: CHROMOSOME_COUNT_def)
  from scanSegments_passes [OF pass kc, of ?segs0 "snd ?c"]
  obtain segs1 pen1
    where sc: "scanSegments geo chroms panel 0 kids ?segs0 (snd ?c) = Inr (segs1, pen1)"
    by blast
  from scanSegments_Inr [OF sc kc] t have "segs1 = ?segs0"
    by (simp add: CHROMOSOME_COUNT_def)
  with sc have sc': "scanSegments geo chroms panel 0 kids ?segs0 (snd ?c) = Inr (?segs0, pen1)"
    by simp
  have g1: "growGenerations geo chroms panel [Suc 0..<CHROMOSOME_COUNT] ?segs0 pen1
              = Inr (?segs0, pen1)"
    using s0(2) by (simp add: upt_conv_Cons CHROMOSOME_COUNT_def MAX_CHROMOSOME_SEGMENTS_def)
  have "growGenerations geo chroms panel [0..<CHROMOSOME_COUNT] ?segs0 (snd ?c)
          = Inr (?segs0, pen1)"
    using ne small sc' g1 s0(1)
    by (subst growGenerations_step) (simp_all add: CHROMOSOME_COUNT_def)
  then show ?thesis
    unfolding validation_unfold [OF len] kids [symmetric] by blast
qed

text \<open>
  C5, amended. For a creature with four chromosomes: when chromosome 0 yields no
  positions, \<open>display\<close> returns False. The first loop, arriving at a later chromosome with
  no pending positions, ends normally; so when the first phase has ended with no
  positions for a chromosome \<open>k > 0\<close>, every chromosome before \<open>k\<close> having passed the count
  and the bounds test, the later chromosomes have none either, and \<open>display\<close> returns True
  with the pen as drawing the chromosomes before \<open>k\<close> leaves it. In particular, when
  chromosome 1 is terminated and the positions of chromosome 0 are at most 32 and pass the
  bounds test, \<open>display\<close> returns True having drawn the segments of chromosome 0 only.
\<close>

theorem early_termination:
  fixes geo :: "'h compass"
  assumes "length (chromosomesOf s self) = CHROMOSOME_COUNT"
  shows "(fst (childSegmentPositions geo (chromosomesOf s self ! 0)
                 (startingPenPosition panel) pen) = [] \<longrightarrow>
            fst (display geo s self panel pen) = Inr False) \<and>
         (\<forall>k ks segs0 pen0.
            0 < k \<and> segs0 ! k = [] \<longrightarrow>
            growGenerations geo (chromosomesOf s self) panel (k # ks) segs0 pen0
              = Inr (segs0, pen0)) \<and>
         (\<forall>segs pen1 k.
            validation geo (chromosomesOf s self) panel pen = Inr (segs, pen1) \<and>
            0 < k \<and> k < CHROMOSOME_COUNT \<and> segs ! k = [] \<longrightarrow>
            (\<forall>j. k \<le> j \<and> j < CHROMOSOME_COUNT \<longrightarrow> segs ! j = []) \<and>
            (\<exists>pen2. drawGenerations geo (chromosomesOf s self) panel [0..<k] segs pen1
                      = Inr pen2 \<and>
                    display geo s self panel pen = (Inr True, pen2))) \<and>
         (terminated (chromosomesOf s self ! 1) \<and>
          fst (childSegmentPositions geo (chromosomesOf s self ! 0)
                 (startingPenPosition panel) pen) \<noteq> [] \<and>
          length (fst (childSegmentPositions geo (chromosomesOf s self ! 0)
                 (startingPenPosition panel) pen)) \<le> MAX_CHROMOSOME_SEGMENTS \<and>
          (\<forall>p \<in> set (fst (childSegmentPositions geo (chromosomesOf s self ! 0)
                 (startingPenPosition panel) pen)).
             \<not> outOfBounds geo (chromosomesOf s self ! 0) panel p) \<longrightarrow>
            (\<exists>pen1 pen2.
               validation geo (chromosomesOf s self) panel pen =
                 Inr ((replicate CHROMOSOME_COUNT [])
                        [0 := fst (childSegmentPositions geo (chromosomesOf s self ! 0)
                                     (startingPenPosition panel) pen)], pen1) \<and>
               drawSegments geo (chromosomesOf s self) panel 0
                 (fst (childSegmentPositions geo (chromosomesOf s self ! 0)
                         (startingPenPosition panel) pen)) pen1 = Inr pen2 \<and>
               display geo s self panel pen = (Inr True, pen2)))"
proof -
  let ?chroms = "chromosomesOf s self"
  let ?kids = "fst (childSegmentPositions geo (?chroms ! 0) (startingPenPosition panel) pen)"
  have c1: "?kids = [] \<longrightarrow> fst (display geo s self panel pen) = Inr False"
  proof
    assume "?kids = []"
    from validation_first_empty [OF assms this]
    show "fst (display geo s self panel pen) = Inr False"
      by (simp add: display_def)
  qed
  have c2: "\<forall>k ks (segs0 :: 'h penPosition list list) (pen0 :: 'h turtle).
            0 < k \<and> segs0 ! k = [] \<longrightarrow>
            growGenerations geo ?chroms panel (k # ks) segs0 pen0 = Inr (segs0, pen0)"
    by (simp add: MAX_CHROMOSOME_SEGMENTS_def)
  have c3: "\<forall>segs pen1 k.
            validation geo ?chroms panel pen = Inr (segs, pen1) \<and>
            0 < k \<and> k < CHROMOSOME_COUNT \<and> segs ! k = [] \<longrightarrow>
            (\<forall>j. k \<le> j \<and> j < CHROMOSOME_COUNT \<longrightarrow> segs ! j = []) \<and>
            (\<exists>pen2. drawGenerations geo ?chroms panel [0..<k] segs pen1 = Inr pen2 \<and>
                    display geo s self panel pen = (Inr True, pen2))"
  proof (intro allI impI)
    fix segs pen1 k
    assume a: "validation geo ?chroms panel pen = Inr (segs, pen1) \<and>
            0 < k \<and> k < CHROMOSOME_COUNT \<and> segs ! k = []"
    then have v: "validation geo ?chroms panel pen = Inr (segs, pen1)"
      and k: "k < CHROMOSOME_COUNT" and e: "segs ! k = []" by simp_all
    from validation_Inr [OF v assms] e
    have later: "\<forall>j. k \<le> j \<and> j < CHROMOSOME_COUNT \<longrightarrow> segs ! j = []"
      by blast
    from k assms obtain pen2
      where d: "drawGenerations geo ?chroms panel [0..<k] segs pen1 = Inr pen2"
      using drawGenerations_ok [of "[0..<k]" ?chroms geo panel segs pen1] by auto
    from k have "k \<le> CHROMOSOME_COUNT" by simp
    from drawGenerations_prefix [OF this later d]
    have "display geo s self panel pen = (Inr True, pen2)"
      by (rule display_Inr [OF v])
    with later d
    show "(\<forall>j. k \<le> j \<and> j < CHROMOSOME_COUNT \<longrightarrow> segs ! j = []) \<and>
            (\<exists>pen2. drawGenerations geo ?chroms panel [0..<k] segs pen1 = Inr pen2 \<and>
                    display geo s self panel pen = (Inr True, pen2))"
      by blast
  qed
  have c4: "terminated (?chroms ! 1) \<and> ?kids \<noteq> [] \<and>
          length ?kids \<le> MAX_CHROMOSOME_SEGMENTS \<and>
          (\<forall>p \<in> set ?kids. \<not> outOfBounds geo (?chroms ! 0) panel p) \<longrightarrow>
            (\<exists>pen1 pen2.
               validation geo ?chroms panel pen =
                 Inr ((replicate CHROMOSOME_COUNT []) [0 := ?kids], pen1) \<and>
               drawSegments geo ?chroms panel 0 ?kids pen1 = Inr pen2 \<and>
               display geo s self panel pen = (Inr True, pen2))"
  proof
    assume a: "terminated (?chroms ! 1) \<and> ?kids \<noteq> [] \<and>
          length ?kids \<le> MAX_CHROMOSOME_SEGMENTS \<and>
          (\<forall>p \<in> set ?kids. \<not> outOfBounds geo (?chroms ! 0) panel p)"
    let ?segs = "(replicate CHROMOSOME_COUNT []) [0 := ?kids]"
    from a validation_second_terminated [OF assms, of ?kids geo panel pen]
    obtain pen1 where v: "validation geo ?chroms panel pen = Inr (?segs, pen1)"
      by blast
    from assms obtain pen2 where d: "drawSegments geo ?chroms panel 0 ?kids pen1 = Inr pen2"
      using drawSegments_ok [of 0 ?chroms geo panel ?kids pen1]
      by (auto simp add: CHROMOSOME_COUNT_def)
    have "drawGenerations geo ?chroms panel [0..<CHROMOSOME_COUNT] ?segs pen1 = Inr pen2"
      using d by (simp add: CHROMOSOME_COUNT_def upt_conv_Cons)
    from display_Inr [OF v this] v d
    show "\<exists>pen1 pen2.
               validation geo ?chroms panel pen = Inr (?segs, pen1) \<and>
               drawSegments geo ?chroms panel 0 ?kids pen1 = Inr pen2 \<and>
               display geo s self panel pen = (Inr True, pen2)"
      by blast
  qed
  from c1 c2 c3 c4 show ?thesis
    by (intro conjI) assumption+
qed

section \<open>Displaying the example creatures\<close>

lemma example_chromosomes:
  "chromosomesOf longStore exampleCreature =
     [interpretChromosomeValue 0 0x107C0, interpretChromosomeValue 1 0x107C0,
      interpretChromosomeValue 2 0x107C0, interpretChromosomeValue 3 0x107C0]"
  "chromosomesOf exampleStore exampleCreature =
     [interpretChromosomeValue 0 0x10000, interpretChromosomeValue 1 0x10000,
      interpretChromosomeValue 2 0x10000, interpretChromosomeValue 3 0x10000]"
  "chromosomesOf bushyStore exampleCreature =
     [interpretChromosomeValue 0 0x33000, interpretChromosomeValue 1 0x33000,
      interpretChromosomeValue 2 0x33000, interpretChromosomeValue 3 0x33000]"
  "chromosomesOf terminatedStore exampleCreature =
     [interpretChromosomeValue 0 0, interpretChromosomeValue 1 0,
      interpretChromosomeValue 2 0, interpretChromosomeValue 3 0]"
  "chromosomesOf stubStore exampleCreature =
     [interpretChromosomeValue 0 0x10280, interpretChromosomeValue 1 0,
      interpretChromosomeValue 2 0, interpretChromosomeValue 3 0]"
  by (simp_all add: chromosomesOf_def exampleCreature_def exampleGenotype_def longStore_def
      exampleStore_def bushyStore_def terminatedStore_def stubStore_def)

lemma replicate_4: "replicate 4 x = [x, x, x, x]"
  by (simp add: eval_nat_numeral)

lemma long_fails:
  "map_sum fst fst (validation degrees (chromosomesOf longStore exampleCreature) smallPanel examplePen)
     = Inl (OutOfBounds 0 exampleStart)"
  by (simp add: example_chromosomes validation_def Let_def split_beta upt_0_4 replicate_4
      CHROMOSOME_COUNT_def MAX_CHROMOSOME_SEGMENTS_def childSegmentPositions_def
      segmentOutOfBounds_def decoded SYMMETRY_STRAIGHT_VALUE_def SHAPE_LINE_VALUE_def
      smallPanel_def exampleStart_def PenPosition_def)

lemma plain_passes:
  "map_sum fst fst (validation degrees (chromosomesOf exampleStore exampleCreature) examplePanel examplePen)
     = Inr [[exampleStart], [exampleStart], [exampleStart], [exampleStart]]"
  by (simp add: example_chromosomes validation_def Let_def split_beta upt_0_4 replicate_4
      CHROMOSOME_COUNT_def MAX_CHROMOSOME_SEGMENTS_def childSegmentPositions_def
      segmentOutOfBounds_def decoded SYMMETRY_STRAIGHT_VALUE_def SHAPE_LINE_VALUE_def
      examplePanel_def exampleStart_def PenPosition_def)

lemma stopped_at:
  "map_sum fst fst v = Inl a \<Longrightarrow> \<exists>pen1. v = Inl (a, pen1)"
  by (cases v) auto

lemma ended_with:
  "map_sum fst fst v = Inr b \<Longrightarrow> \<exists>pen1. v = Inr (b, pen1)"
  by (cases v) auto

lemma example_lengths:
  "length (chromosomesOf longStore exampleCreature) = CHROMOSOME_COUNT"
  "length (chromosomesOf exampleStore exampleCreature) = CHROMOSOME_COUNT"
  "length (chromosomesOf bushyStore exampleCreature) = CHROMOSOME_COUNT"
  "length (chromosomesOf terminatedStore exampleCreature) = CHROMOSOME_COUNT"
  "length (chromosomesOf stubStore exampleCreature) = CHROMOSOME_COUNT"
  by (simp_all add: example_chromosomes CHROMOSOME_COUNT_def)

text \<open>
  With one straight branch of length 31 in the small panel the first segment runs out of
  bounds: \<open>display\<close> returns False and the pen has drawn nothing. With length 0 in the
  example panel all four chromosomes pass.
\<close>

theorem display_validates_first_witness:
  "length (chromosomesOf longStore exampleCreature) = CHROMOSOME_COUNT \<and>
   outOfBounds degrees (chromosomesOf longStore exampleCreature ! 0) smallPanel exampleStart \<and>
   fst (display degrees longStore exampleCreature smallPanel examplePen) = Inr False \<and>
   t_drawn (snd (display degrees longStore exampleCreature smallPanel examplePen)) = [] \<and>
   length (chromosomesOf exampleStore exampleCreature) = CHROMOSOME_COUNT \<and>
   \<not> outOfBounds degrees (chromosomesOf exampleStore exampleCreature ! 3) examplePanel
       exampleStart"
proof -
  from stopped_at [OF long_fails] obtain pen1
    where v: "validation degrees (chromosomesOf longStore exampleCreature) smallPanel examplePen
                = Inl (OutOfBounds 0 exampleStart, pen1)"
    by blast
  from display_validates_first [OF example_lengths(1), of degrees smallPanel examplePen] v
  have a: "outOfBounds degrees (chromosomesOf longStore exampleCreature ! 0) smallPanel
             exampleStart"
    and b: "display degrees longStore exampleCreature smallPanel examplePen = (Inr False, pen1)"
    and c: "t_drawn pen1 = t_drawn examplePen"
    by blast+
  from ended_with [OF plain_passes] obtain pen2
    where w: "validation degrees (chromosomesOf exampleStore exampleCreature) examplePanel
                examplePen
                = Inr ([[exampleStart], [exampleStart], [exampleStart], [exampleStart]], pen2)"
    by blast
  from display_validates_first [OF example_lengths(2), of degrees examplePanel examplePen] w
  have "\<forall>k < CHROMOSOME_COUNT.
          \<forall>p \<in> set ([[exampleStart], [exampleStart], [exampleStart], [exampleStart]] ! k).
            \<not> outOfBounds degrees (chromosomesOf exampleStore exampleCreature ! k) examplePanel p"
    by blast
  then have d: "\<not> outOfBounds degrees (chromosomesOf exampleStore exampleCreature ! 3)
                   examplePanel exampleStart"
    by (simp add: CHROMOSOME_COUNT_def)
  from a b c d example_lengths(1,2) show ?thesis
    by (simp add: examplePen_def)
qed

lemma bushy_too_many:
  "map_sum fst fst (validation degrees (chromosomesOf bushyStore exampleCreature) examplePanel examplePen)
     = Inl (TooManySegments 1)"
  by (simp add: example_chromosomes validation_def Let_def split_beta upt_0_4 replicate_4
      CHROMOSOME_COUNT_def MAX_CHROMOSOME_SEGMENTS_def childSegmentPositions_def
      segmentOutOfBounds_def decoded SYMMETRY_STRAIGHT_VALUE_def SHAPE_LINE_VALUE_def
      SYMMETRY_SAME_HANDED_VALUE_def SYMMETRY_OPPOSITE_HANDED_VALUE_def
      examplePanel_def exampleStart_def PenPosition_def numeral_3_eq_3
      right_def left_def degrees_def examplePen_def restore_def penup_def setposition_def
      setheading_def forward_def)

lemma plain_displays:
  "fst (display degrees exampleStore exampleCreature examplePanel examplePen) = Inr True"
proof -
  from ended_with [OF plain_passes] obtain pen2
    where w: "validation degrees (chromosomesOf exampleStore exampleCreature) examplePanel
                examplePen
                = Inr ([[exampleStart], [exampleStart], [exampleStart], [exampleStart]], pen2)"
    by blast
  from example_lengths(2) show ?thesis
    using w by (cases rule: display_cases [of exampleStore exampleCreature degrees
          examplePanel examplePen]) simp_all
qed

text \<open>
  Four bilateral chromosomes with three branches give six positions for chromosome 0 and
  thirty-six for chromosome 1, all at the origin and within the panel: \<open>display\<close> returns
  False.
\<close>

theorem too_many_segments_fail_witness:
  "length (chromosomesOf bushyStore exampleCreature) = CHROMOSOME_COUNT \<and>
   MAX_CHROMOSOME_SEGMENTS < length ([replicate 33 exampleStart] ! 0) \<and>
   growGenerations degrees (chromosomesOf bushyStore exampleCreature) examplePanel [0]
     [replicate 33 exampleStart] examplePen = Inl (TooManySegments 0, examplePen) \<and>
   map_sum fst fst (validation degrees (chromosomesOf bushyStore exampleCreature)
                      examplePanel examplePen) = Inl (TooManySegments 1) \<and>
   fst (display degrees bushyStore exampleCreature examplePanel examplePen) = Inr False \<and>
   fst (display degrees exampleStore exampleCreature examplePanel examplePen) = Inr True \<and>
   (\<exists>segs. map_sum fst fst (validation degrees (chromosomesOf exampleStore exampleCreature)
                      examplePanel examplePen) = Inr segs \<and>
           length (segs ! 1) \<le> MAX_CHROMOSOME_SEGMENTS)"
proof -
  note bushy = too_many_segments_fail [OF example_lengths(3), of degrees examplePanel examplePen]
  note plain = too_many_segments_fail [OF example_lengths(2), of degrees examplePanel examplePen]
  have m: "MAX_CHROMOSOME_SEGMENTS < length ([replicate 33 exampleStart] ! 0)"
    by (simp add: MAX_CHROMOSOME_SEGMENTS_def)
  then
  have a: "growGenerations degrees (chromosomesOf bushyStore exampleCreature) examplePanel [0]
     [replicate 33 exampleStart] examplePen = Inl (TooManySegments 0, examplePen)"
    by (rule bushy [THEN conjunct1, rule_format])
  from stopped_at [OF bushy_too_many] obtain pen1
    where v: "validation degrees (chromosomesOf bushyStore exampleCreature) examplePanel
                examplePen = Inl (TooManySegments 1, pen1)"
    by blast
  then
  have b: "display degrees bushyStore exampleCreature examplePanel examplePen = (Inr False, pen1)"
    by (rule bushy [THEN conjunct2, THEN conjunct1, rule_format])
  from plain [THEN conjunct2, THEN conjunct2, rule_format, OF plain_displays] obtain segs pen2
    where w: "validation degrees (chromosomesOf exampleStore exampleCreature) examplePanel
                examplePen = Inr (segs, pen2)"
      and l: "\<forall>k < CHROMOSOME_COUNT. length (segs ! k) \<le> MAX_CHROMOSOME_SEGMENTS"
    by blast
  from l have "length (segs ! 1) \<le> MAX_CHROMOSOME_SEGMENTS"
    by (simp add: CHROMOSOME_COUNT_def)
  with w have c: "\<exists>segs. map_sum fst fst (validation degrees
        (chromosomesOf exampleStore exampleCreature) examplePanel examplePen) = Inr segs \<and>
           length (segs ! 1) \<le> MAX_CHROMOSOME_SEGMENTS"
    by simp
  from example_lengths(3) m a bushy_too_many b plain_displays c show ?thesis
    by simp
qed

lemma terminated_none:
  "fst (childSegmentPositions degrees (chromosomesOf terminatedStore exampleCreature ! 0)
          (startingPenPosition examplePanel) examplePen) = []"
  by (simp add: example_chromosomes childSegmentPositions_terminated decoded)

lemma stub_first:
  "fst (childSegmentPositions degrees (chromosomesOf stubStore exampleCreature ! 0)
          (startingPenPosition examplePanel) examplePen) = [exampleStart]"
  by (simp add: example_chromosomes childSegmentPositions_def Let_def split_beta decoded
      SYMMETRY_STRAIGHT_VALUE_def examplePanel_def)

lemma stub_in_bounds:
  "\<not> outOfBounds degrees (chromosomesOf stubStore exampleCreature ! 0) examplePanel exampleStart"
  by (simp add: example_chromosomes outOfBounds_def segmentOutOfBounds_def Let_def split_beta
      decoded SHAPE_LINE_VALUE_def examplePanel_def exampleStart_def penAt_def)

lemma stub_stroke:
  "t_drawn pen1 = [] \<Longrightarrow>
   drawSegments degrees (chromosomesOf stubStore exampleCreature) examplePanel 0
     [exampleStart] pen1 = Inr pen2 \<Longrightarrow>
   t_drawn pen2 = [Stroke 0 0 0 10]"
  by (auto simp add: example_chromosomes item_def drawSingleSegment_def Let_def decoded
      SHAPE_LINE_VALUE_def pendown_def pencolor_def fillcolor_def width_def penup_def
      forward_def setposition_def restore_def setheading_def exampleStart_def degrees_def)

text \<open>
  With terminated chromosomes only, \<open>display\<close> returns False. With one straight branch of
  length 10 followed by a terminated chromosome it returns True, and all the pen has
  drawn is the one line of chromosome 0.
\<close>

theorem early_termination_witness:
  "length (chromosomesOf terminatedStore exampleCreature) = CHROMOSOME_COUNT \<and>
   fst (childSegmentPositions degrees (chromosomesOf terminatedStore exampleCreature ! 0)
          (startingPenPosition examplePanel) examplePen) = [] \<and>
   fst (display degrees terminatedStore exampleCreature examplePanel examplePen) = Inr False \<and>
   growGenerations degrees (chromosomesOf stubStore exampleCreature) examplePanel [1]
     [[exampleStart], []] examplePen = Inr ([[exampleStart], []], examplePen) \<and>
   length (chromosomesOf stubStore exampleCreature) = CHROMOSOME_COUNT \<and>
   terminated (chromosomesOf stubStore exampleCreature ! 1) \<and>
   fst (childSegmentPositions degrees (chromosomesOf stubStore exampleCreature ! 0)
          (startingPenPosition examplePanel) examplePen) = [exampleStart] \<and>
   \<not> outOfBounds degrees (chromosomesOf stubStore exampleCreature ! 0) examplePanel
       exampleStart \<and>
   map_sum fst fst (validation degrees (chromosomesOf stubStore exampleCreature) examplePanel
                      examplePen) = Inr [[exampleStart], [], [], []] \<and>
   fst (display degrees stubStore exampleCreature examplePanel examplePen) = Inr True \<and>
   t_drawn (snd (display degrees stubStore exampleCreature examplePanel examplePen))
     = [Stroke 0 0 0 10]"
proof -
  note gone = early_termination [OF example_lengths(4), of degrees examplePanel examplePen]
  note stub = early_termination [OF example_lengths(5), of degrees examplePanel examplePen]
  from terminated_none
  have a: "fst (display degrees terminatedStore exampleCreature examplePanel examplePen)
             = Inr False"
    by (rule gone [THEN conjunct1, rule_format])
  have "0 < (1::nat) \<and> [[exampleStart], []] ! 1 = ([] :: int penPosition list)"
    by simp
  then
  have b: "growGenerations degrees (chromosomesOf stubStore exampleCreature) examplePanel [1]
     [[exampleStart], []] examplePen = Inr ([[exampleStart], []], examplePen)"
    by (rule stub [THEN conjunct2, THEN conjunct1, rule_format])
  have t: "terminated (chromosomesOf stubStore exampleCreature ! 1)"
    by (simp add: example_chromosomes decoded)
  have "terminated (chromosomesOf stubStore exampleCreature ! 1) \<and>
      fst (childSegmentPositions degrees (chromosomesOf stubStore exampleCreature ! 0)
             (startingPenPosition examplePanel) examplePen) \<noteq> [] \<and>
      length (fst (childSegmentPositions degrees (chromosomesOf stubStore exampleCreature ! 0)
             (startingPenPosition examplePanel) examplePen)) \<le> MAX_CHROMOSOME_SEGMENTS \<and>
      (\<forall>p \<in> set (fst (childSegmentPositions degrees
                          (chromosomesOf stubStore exampleCreature ! 0)
                          (startingPenPosition examplePanel) examplePen)).
         \<not> outOfBounds degrees (chromosomesOf stubStore exampleCreature ! 0) examplePanel p)"
    using t stub_in_bounds by (simp add: stub_first MAX_CHROMOSOME_SEGMENTS_def)
  from stub [THEN conjunct2, THEN conjunct2, THEN conjunct2, rule_format, OF this]
  obtain pen1 pen2
    where v: "validation degrees (chromosomesOf stubStore exampleCreature) examplePanel examplePen
           = Inr ((replicate CHROMOSOME_COUNT [])
                    [0 := fst (childSegmentPositions degrees
                                 (chromosomesOf stubStore exampleCreature ! 0)
                                 (startingPenPosition examplePanel) examplePen)], pen1)"
      and d: "drawSegments degrees (chromosomesOf stubStore exampleCreature) examplePanel 0
                (fst (childSegmentPositions degrees
                        (chromosomesOf stubStore exampleCreature ! 0)
                        (startingPenPosition examplePanel) examplePen)) pen1 = Inr pen2"
      and r: "display degrees stubStore exampleCreature examplePanel examplePen
                = (Inr True, pen2)"
    by blast
  from validation_Inr [OF v example_lengths(5)] have e: "t_drawn pen1 = []"
    by (simp add: examplePen_def)
  from e d [unfolded stub_first] have s: "t_drawn pen2 = [Stroke 0 0 0 10]"
    by (rule stub_stroke)
  from v have w: "map_sum fst fst (validation degrees (chromosomesOf stubStore exampleCreature)
                      examplePanel examplePen) = Inr [[exampleStart], [], [], []]"
    by (simp add: stub_first CHROMOSOME_COUNT_def replicate_4)
  from example_lengths(4,5) terminated_none a b t stub_first stub_in_bounds w r s
  show ?thesis by simp
qed

section \<open>A creature that fails after its first chromosome\<close>

lemma relay_chromosomes:
  "chromosomesOf relayStore exampleCreature =
     [interpretChromosomeValue 0 0x10280, interpretChromosomeValue 1 0x20100,
      interpretChromosomeValue 2 0, interpretChromosomeValue 3 0]"
  by (simp add: chromosomesOf_def exampleCreature_def exampleGenotype_def relayStore_def)

lemma straightBranches_2:
  "straightBranches geo 2 len ch pen = straightBranches geo (Suc (Suc 0)) len ch pen"
  by (simp add: numeral_2_eq_2)

lemma relay_validation:
  "map_sum fst fst (validation degrees (chromosomesOf relayStore exampleCreature) lowPanel examplePen)
     = Inl (OutOfBounds 1 (exampleStart\<lparr>yPosition := 14\<rparr>))"
  by (simp add: relay_chromosomes validation_def Let_def split_beta upt_0_4 replicate_4
      CHROMOSOME_COUNT_def MAX_CHROMOSOME_SEGMENTS_def childSegmentPositions_def
      segmentOutOfBounds_def decoded SYMMETRY_STRAIGHT_VALUE_def SHAPE_LINE_VALUE_def
      lowPanel_def exampleStart_def PenPosition_def straightBranches_2)

text \<open>
  C5 as stated fails for a later chromosome than chromosome 1. Here chromosome 0
  succeeds and chromosome 2 is terminated, and yields no positions from the end of the
  first segment of chromosome 1; the second segment of chromosome 1 runs past the top of
  the panel, and \<open>display\<close> returns False.
\<close>

theorem later_generation_fails_first:
  "\<not> outOfBounds degrees (chromosomesOf relayStore exampleCreature ! 0) lowPanel exampleStart \<and>
   terminated (chromosomesOf relayStore exampleCreature ! 2) \<and>
   fst (childSegmentPositions degrees (chromosomesOf relayStore exampleCreature ! 2)
          (exampleStart\<lparr>yPosition := 14\<rparr>) examplePen) = [] \<and>
   map_sum fst fst (validation degrees (chromosomesOf relayStore exampleCreature) lowPanel
                      examplePen) = Inl (OutOfBounds 1 (exampleStart\<lparr>yPosition := 14\<rparr>)) \<and>
   fst (display degrees relayStore exampleCreature lowPanel examplePen) = Inr False"
proof -
  have a: "\<not> outOfBounds degrees (chromosomesOf relayStore exampleCreature ! 0) lowPanel
             exampleStart"
    by (simp add: relay_chromosomes outOfBounds_def segmentOutOfBounds_def Let_def split_beta
        decoded SHAPE_LINE_VALUE_def lowPanel_def exampleStart_def penAt_def)
  have t: "terminated (chromosomesOf relayStore exampleCreature ! 2)"
    by (simp add: relay_chromosomes decoded)
  from stopped_at [OF relay_validation] obtain pen1
    where "validation degrees (chromosomesOf relayStore exampleCreature) lowPanel examplePen
             = Inl (OutOfBounds 1 (exampleStart\<lparr>yPosition := 14\<rparr>), pen1)"
    by blast
  then have "display degrees relayStore exampleCreature lowPanel examplePen = (Inr False, pen1)"
    by (rule display_Inl) simp
  with a t relay_validation show ?thesis
    by (simp add: childSegmentPositions_terminated)
qed

end
